theory Spec2Isabelle
  imports Complex_Main "HOL-Library.Word" "HOL-Library.Sublist" "HOL-Library.Log_Nat"
begin

section \<open>JavaScript strings\<close>

text \<open>
  A JavaScript string is a sequence of UTF-16 code units. The ASCII literals of the
  source are written with \<open>js\<close>; the Persian letters of the lip-sync tables are given
  by their code unit values. The audio level, the mouth shape and the delays of the idle
  gestures are modelled as reals: there \<open>Math.random()\<close> is a real in \<open>[0, 1)\<close>
  supplied by the caller and arithmetic is exact. The numbers of the blink loop are
  doubles.
\<close>

type_synonym code_unit = "16 word"
type_synonym jsstring = "code_unit list"

definition js :: "string \<Rightarrow> jsstring" where
  "js s = map of_char s"

text \<open>
  \<open>String.prototype.trim\<close> removes the ECMAScript WhiteSpace and LineTerminator code
  units from both ends.
\<close>

definition isWhiteSpace :: "code_unit \<Rightarrow> bool" where
  "isWhiteSpace c =
     (c \<in> set [0x9, 0xA, 0xB, 0xC, 0xD, 0x20, 0xA0, 0x1680, 0x2028, 0x2029,
                0x202F, 0x205F, 0x3000, 0xFEFF]
      \<or> (0x2000 \<le> c \<and> c \<le> 0x200A))"

definition trim :: "jsstring \<Rightarrow> jsstring" where
  "trim s = rev (dropWhile isWhiteSpace (rev (dropWhile isWhiteSpace s)))"

text \<open>\<open>String.prototype.includes\<close>: the argument occurs as a contiguous substring.\<close>

fun js_includes :: "jsstring \<Rightarrow> jsstring \<Rightarrow> bool" where
  "js_includes [] sub = (sub = [])"
| "js_includes (x # xs) sub = (prefix sub (x # xs) \<or> js_includes xs sub)"


section \<open>Component state\<close>

text \<open>
  The \<open>useState\<close> and \<open>useRef\<close> cells that the handlers of the component read and
  write (lines 13-46), in the order of their declaration. Around them, what the handlers
  reach outside the component: the \<open>video\<close> element behind \<open>videoRef\<close> with its
  \<open>srcObject\<close>, the camera streams whose tracks are running, and a log of the calls made
  on \<open>liveService.current\<close>. A camera stream is named by a number; \<open>getUserMedia\<close>
  hands out \<open>nextStream\<close> and counts on.
\<close>

datatype status = Idle | Listening | Speaking

datatype facing = User | Environment

datatype service_call =
    Stop
  | Start bool
  | Send jsstring
  | SetVision bool
  | SetVisionAfter500

record app =
  needsApiKey :: bool
  audioLevel :: real
  status :: status
  isVisionSync :: bool
  facingMode :: facing
  error :: "jsstring option"
  textInput :: jsstring
  astraResponse :: "jsstring option"
  latestResponseRef :: jsstring
  isTyping :: bool
  videoUrl :: "jsstring option"
  isAnimating :: bool
  animationStatus :: jsstring
  videoMounted :: bool
  srcObject :: "nat option"
  liveStreams :: "nat set"
  nextStream :: nat
  calls :: "service_call list"

definition init_app :: app where
  "init_app =
     \<lparr> needsApiKey = False, audioLevel = 0, status = Idle, isVisionSync = False,
       facingMode = User, error = None, textInput = [], astraResponse = None,
       latestResponseRef = [], isTyping = False, videoUrl = None, isAnimating = False,
       animationStatus = [], videoMounted = True, srcObject = None, liveStreams = {},
       nextStream = 0, calls = [] \<rparr>"


section \<open>Session controller\<close>

definition isConnected :: "app \<Rightarrow> bool" where
  "isConnected s = (status s \<noteq> Idle)"

text \<open>
  The callback bundle handed to \<open>liveService.current.start\<close> (lines 275-303).
  \<open>onMemoryUpdate\<close> writes only \<open>lastMemory\<close> and is modelled with the memory note.
\<close>

definition onAudioLevel :: "real \<Rightarrow> app \<Rightarrow> app" where
  "onAudioLevel level s = s\<lparr>audioLevel := level\<rparr>"

definition onStatusChange :: "status \<Rightarrow> app \<Rightarrow> app" where
  "onStatusChange st s =
     (let s1 = s\<lparr>status := st\<rparr>
      in if st = Speaking then s1\<lparr>isTyping := True\<rparr> else s1)"

definition onError :: "jsstring \<Rightarrow> app \<Rightarrow> app" where
  "onError msg s =
     (let s1 = s\<lparr>error := Some msg\<rparr>;
          s2 = s1\<lparr>status := Idle\<rparr>;
          s3 = s2\<lparr>isTyping := False\<rparr>
      in if js_includes msg (js ''Model access denied'')
            \<or> js_includes msg (js ''Quota exhausted'')
         then s3\<lparr>needsApiKey := True\<rparr> else s3)"

definition onTranscription :: "jsstring \<Rightarrow> app \<Rightarrow> app" where
  "onTranscription text s =
     (let s1 = s\<lparr>astraResponse := Some text\<rparr>;
          s2 = s1\<lparr>latestResponseRef := text\<rparr>
      in if length text > 0 then s2\<lparr>isTyping := False\<rparr> else s2)"

definition onTurnComplete :: "app \<Rightarrow> app" where
  "onTurnComplete s =
     (let s1 = s\<lparr>status := Idle\<rparr>;
          s2 = s1\<lparr>isTyping := False\<rparr>
      in s2\<lparr>latestResponseRef := []\<rparr>)"

text \<open>
  \<open>toggleSession\<close> (lines 262-315). The awaited \<open>start\<close> either resolves or rejects;
  the rejection carries \<open>err?.message || String(err)\<close>.
\<close>

datatype start_result = Started | StartFailed jsstring

definition toggleSession :: "start_result \<Rightarrow> app \<Rightarrow> app" where
  "toggleSession r s =
     (if status s \<noteq> Idle then
        s\<lparr>calls := calls s @ [Stop], status := Idle, astraResponse := None,
          isTyping := False, audioLevel := 0\<rparr>
      else
        (let s1 = s\<lparr>error := None\<rparr>;
             s2 = s1\<lparr>calls := calls s1 @ [Start (isVisionSync s1)]\<rparr>
         in case r of
              Started \<Rightarrow> s2
            | StartFailed msg \<Rightarrow>
                (let s3 =
                   (if js_includes msg (js ''Permission denied'')
                       \<or> js_includes msg (js ''NotAllowedError'')
                    then s2\<lparr>error := Some (js ''Microphone access is required for the Neural Bridge. Please check your browser permissions.'')\<rparr>
                    else s2\<lparr>error := Some (js ''Neural Bridge connection failed: '' @ msg)\<rparr>)
                 in s3\<lparr>status := Idle\<rparr>)))"

text \<open>
  \<open>handleSendMessage\<close> (lines 159-170). The awaited \<open>send\<close> either resolves or throws.
\<close>

datatype send_result = SendOk | SendFailed

definition handleSendMessage :: "send_result \<Rightarrow> app \<Rightarrow> app" where
  "handleSendMessage r s =
     (if trim (textInput s) = [] \<or> \<not> isConnected s then s
      else
        (let s1 = s\<lparr>isTyping := True\<rparr>;
             s2 = s1\<lparr>astraResponse := None\<rparr>;
             s3 = s2\<lparr>calls := calls s2 @ [Send (textInput s2)]\<rparr>
         in case r of
              SendOk \<Rightarrow> s3\<lparr>textInput := []\<rparr>
            | SendFailed \<Rightarrow> s3\<lparr>isTyping := False\<rparr>))"


section \<open>Media acquisition\<close>

text \<open>
  \<open>startCamera\<close> (lines 172-197) runs in two steps. Up to the \<open>await\<close> it stops the
  tracks of the stream bound to the video element: \<open>stopTracks\<close>, the
  \<open>forEach(t => t.stop())\<close>. When \<open>getUserMedia\<close> settles, with a new stream or with a
  rejection, the rest of the body runs: \<open>startCamera_settle\<close>, with the \<open>isConnected\<close>
  that the call saw when it began. Nothing in the body keeps a second call from beginning
  while the first one waits. The \<open>setVision\<close> call that a connected session schedules
  500 ms later is logged when it is scheduled.
\<close>

datatype media_result = Granted | Denied

definition stopTracks :: "app \<Rightarrow> app" where
  "stopTracks s =
     (if videoMounted s then
        (case srcObject s of
           Some i \<Rightarrow> s\<lparr>liveStreams := liveStreams s - {i}\<rparr>
         | None \<Rightarrow> s)
      else s)"

definition startCamera_settle :: "facing \<Rightarrow> bool \<Rightarrow> media_result \<Rightarrow> app \<Rightarrow> app" where
  "startCamera_settle mode wasConnected r s1 =
     (case r of
        Granted \<Rightarrow>
          (let stream = nextStream s1;
               s2 = s1\<lparr>liveStreams := insert stream (liveStreams s1),
                      nextStream := Suc stream\<rparr>
           in if videoMounted s2 then
                (let s3 = s2\<lparr>srcObject := Some stream\<rparr>;
                     s4 = s3\<lparr>isVisionSync := True\<rparr>;
                     s5 = s4\<lparr>facingMode := mode\<rparr>
                 in if wasConnected
                    then s5\<lparr>calls := calls s5 @ [SetVisionAfter500]\<rparr> else s5)
              else s2)
      | Denied \<Rightarrow>
          (let s2 = s1\<lparr>error := Some (js ''Neural lens access denied. Please check camera permissions.'')\<rparr>
           in s2\<lparr>isVisionSync := False\<rparr>))"

text \<open>An invocation of \<open>startCamera\<close> that settles before anything else runs.\<close>

definition startCamera :: "facing \<Rightarrow> media_result \<Rightarrow> app \<Rightarrow> app" where
  "startCamera mode r s = startCamera_settle mode (isConnected s) r (stopTracks s)"

text \<open>\<open>toggleVision\<close> (lines 199-211) and \<open>switchCamera\<close> (lines 213-216).\<close>

definition toggleVision :: "media_result \<Rightarrow> app \<Rightarrow> app" where
  "toggleVision r s =
     (if isVisionSync s then
        (let s1 = s\<lparr>isVisionSync := False\<rparr>;
             s2 = s1\<lparr>calls := calls s1 @ [SetVision False]\<rparr>
         in if videoMounted s2 \<and> srcObject s2 \<noteq> None
            then (stopTracks s2)\<lparr>srcObject := None\<rparr> else s2)
      else startCamera (facingMode s) r s)"

definition switchCamera :: "media_result \<Rightarrow> app \<Rightarrow> app" where
  "switchCamera r s =
     (let nextMode = (if facingMode s = User then Environment else User)
      in startCamera nextMode r s)"



section \<open>Animation commissioning\<close>

text \<open>
  \<open>handleAnimate\<close> (lines 218-260). Between \<open>setError(null)\<close> and the end of the
  \<open>try\<close> block the image is fetched and \<open>VeoService.animateImage\<close> is awaited; the
  progress callback stores each message it is given. The block either yields a video URL
  or throws: a value whose \<open>message\<close> is the given string (\<open>None\<close> when it has no
  string message), or \<open>null\<close>/\<open>undefined\<close>, on which the \<open>catch\<close> block itself throws
  at \<open>err.message\<close>. The \<open>finally\<close> block runs in every case.
\<close>

datatype animate_result =
    AnimateOk jsstring
  | AnimateFailed "jsstring option"
  | AnimateFailedNullish

definition handleAnimate :: "jsstring list \<Rightarrow> animate_result \<Rightarrow> app \<Rightarrow> app" where
  "handleAnimate msgs r s =
     (if isAnimating s then s
      else
        (let s1 = s\<lparr>isAnimating := True\<rparr>;
             s2 = s1\<lparr>error := None\<rparr>;
             s3 = fold (\<lambda>msg st. st\<lparr>animationStatus := msg\<rparr>) msgs s2;
             s4 =
               (case r of
                  AnimateOk url \<Rightarrow> s3\<lparr>videoUrl := Some url\<rparr>
                | AnimateFailed m \<Rightarrow>
                    (if m = Some (js ''API_KEY_PERMISSION_DENIED'')
                        \<or> m = Some (js ''API_KEY_EXPIRED'')
                     then s3\<lparr>needsApiKey := True\<rparr>
                     else if m = Some (js ''SERVICE_UNAVAILABLE'')
                     then s3\<lparr>error := Some (js ''Neural animation engine is temporarily overloaded. Please try again in a few minutes.'')\<rparr>
                     else if m = Some (js ''QUOTA_EXHAUSTED'')
                     then (s3\<lparr>error := Some (js ''Neural Quota Exhausted: You have reached your API limit. Please switch to a Paid API key or wait for the quota to reset.'')\<rparr>)
                            \<lparr>needsApiKey := True\<rparr>
                     else s3\<lparr>error := Some (js ''Neural animation failed. Please ensure you are using a Paid API key.'')\<rparr>)
                | AnimateFailedNullish \<Rightarrow> s3);
             s5 = s4\<lparr>isAnimating := False\<rparr>
         in s5\<lparr>animationStatus := []\<rparr>))"


section \<open>Runs\<close>

text \<open>
  Operations and callbacks as one event type; a run applies them in order. In a run a
  handler that awaits a collaborator is taken together with the outcome of the awaited
  call: the invocations do not overlap, each settles before the next event.
\<close>

datatype event =
    ToggleSession start_result
  | SendMessage send_result
  | StartCamera facing media_result
  | ToggleVision media_result
  | SwitchCamera media_result
  | Animate "jsstring list" animate_result
  | SetTextInput jsstring
  | AudioLevel real
  | StatusChange status
  | Error jsstring
  | Transcription jsstring
  | TurnComplete

fun step :: "event \<Rightarrow> app \<Rightarrow> app" where
  "step (ToggleSession r) s = toggleSession r s"
| "step (SendMessage r) s = handleSendMessage r s"
| "step (StartCamera mode r) s = startCamera mode r s"
| "step (ToggleVision r) s = toggleVision r s"
| "step (SwitchCamera r) s = switchCamera r s"
| "step (Animate msgs r) s = handleAnimate msgs r s"
| "step (SetTextInput t) s = s\<lparr>textInput := t\<rparr>"
| "step (AudioLevel l) s = onAudioLevel l s"
| "step (StatusChange st) s = onStatusChange st s"
| "step (Error msg) s = onError msg s"
| "step (Transcription t) s = onTranscription t s"
| "step TurnComplete s = onTurnComplete s"

definition run :: "event list \<Rightarrow> app \<Rightarrow> app" where
  "run evs s = fold step evs s"


section \<open>Animation state deriver\<close>

subsection \<open>Lip sync\<close>

text \<open>
  The lip-sync effect (lines 99-129) computes
  \<open>astraResponse.trim().slice(-1).toLowerCase()\<close>. \<open>slice(-1)\<close> is the last code unit,
  or the empty string. \<open>toLowerCase\<close> is given on the Basic Latin capitals; the Persian
  letters of the tables have no case. Cased letters outside Basic Latin are left as they
  are: lower-cased, none of them is an entry of the three tables, so the branch taken is
  the same.
\<close>

definition toLowerCase :: "jsstring \<Rightarrow> jsstring" where
  "toLowerCase s = map (\<lambda>c. if 0x41 \<le> c \<and> c \<le> 0x5A then c + 0x20 else c) s"

definition slice_last :: "jsstring \<Rightarrow> jsstring" where
  "slice_last s = (if s = [] then [] else [last s])"

text \<open>The three tables; the Persian entries are
  U+0622, U+0627, U+0648, U+06CC; U+067E, U+0628, U+0645, U+062A, U+062F;
  U+0641, U+0648, U+0633, U+0632.\<close>

definition vowels :: "jsstring list" where
  "vowels = [js ''a'', js ''e'', js ''o'', [0x622], [0x627], [0x648], js ''u'', js ''i'',
             [0x6CC]]"

definition plosives :: "jsstring list" where
  "plosives = [js ''p'', js ''b'', js ''m'', js ''t'', js ''d'', [0x67E], [0x628], [0x645],
               [0x62A], [0x62F]]"

definition fricatives :: "jsstring list" where
  "fricatives = [js ''f'', js ''v'', js ''s'', js ''z'', [0x641], [0x648], [0x633], [0x632]]"

record mouth =
  scale :: real
  skew :: real

text \<open>A result of \<open>Math.random()\<close>, as a real.\<close>

definition unit_draw :: "real \<Rightarrow> bool" where
  "unit_draw r = (0 \<le> r \<and> r < 1)"

definition lastChar :: "jsstring \<Rightarrow> jsstring" where
  "lastChar text = toLowerCase (slice_last (trim text))"

text \<open>The value the effect passes to \<open>setMouthShape\<close>; \<open>rnd\<close> is the result of
  \<open>Math.random()\<close>.\<close>

definition lipSync :: "real \<Rightarrow> status \<Rightarrow> jsstring option \<Rightarrow> mouth" where
  "lipSync rnd st resp =
     (if st \<noteq> Speaking \<or> resp = None \<or> resp = Some []
      then \<lparr>scale = 1, skew = 0\<rparr>
      else
        (let c = lastChar (case resp of Some text \<Rightarrow> text | None \<Rightarrow> [])
         in if c \<in> set vowels then \<lparr>scale = 1.2 + rnd * 0.1, skew = 1.5\<rparr>
            else if c \<in> set plosives then \<lparr>scale = 0.85, skew = - 0.5\<rparr>
            else if c \<in> set fricatives then \<lparr>scale = 1.05, skew = 0.8\<rparr>
            else \<lparr>scale = 1.1, skew = 0.3\<rparr>))"

subsection \<open>Doubles\<close>

text \<open>
  The blink loop compares its numbers with the ends of half-open intervals, so they are
  kept as the IEEE 754 binary64 values that JavaScript computes with. A finite double is
  an integer mantissa and a binary exponent, standing for \<open>mant * 2 ^ expo\<close>; a double
  proper has a mantissa below \<open>2 ^ 53\<close> in absolute value and an exponent of at least
  \<open>-1074\<close>. \<open>round64\<close> rounds an exact value to the nearest double, ties to the even
  mantissa: it drops the bits beyond the 53rd, or those below \<open>2 ^ -1074\<close>. A product or
  a sum is the exact one, rounded. Overflow to \<open>Infinity\<close> is left out: the values of
  the loop stay below \<open>2 ^ 13\<close>.
\<close>

datatype binary64 = B64 (mant: int) (expo: int)

definition dval :: "binary64 \<Rightarrow> real" where
  "dval x = (if 0 \<le> expo x then real_of_int (mant x) * 2 ^ nat (expo x)
             else real_of_int (mant x) / 2 ^ nat (- expo x))"

text \<open>\<open>m / 2 ^ k\<close> rounded to the nearest integer, ties to the even one, for \<open>m\<close> not
  negative.\<close>

definition rne :: "int \<Rightarrow> nat \<Rightarrow> int" where
  "rne m k =
     (let q = m div 2 ^ k; r = m mod 2 ^ k
      in if 2 * r < 2 ^ k then q
         else if 2 ^ k < 2 * r then q + 1
         else if even q then q else q + 1)"

definition round64 :: "int \<Rightarrow> int \<Rightarrow> binary64" where
  "round64 m e =
     (let k = nat (max (bitlen \<bar>m\<bar> - 53) (- 1074 - e))
      in B64 (sgn m * rne \<bar>m\<bar> k) (e + int k))"

definition fmul :: "binary64 \<Rightarrow> binary64 \<Rightarrow> binary64" where
  "fmul a b = round64 (mant a * mant b) (expo a + expo b)"

definition fadd :: "binary64 \<Rightarrow> binary64 \<Rightarrow> binary64" where
  "fadd a b =
     (let e = min (expo a) (expo b)
      in round64 (mant a * 2 ^ nat (expo a - e) + mant b * 2 ^ nat (expo b - e)) e)"

text \<open>A result of \<open>Math.random()\<close>: a double that is at least 0 and less than 1.\<close>

definition unit_draw64 :: "binary64 \<Rightarrow> bool" where
  "unit_draw64 r = (0 \<le> mant r \<and> mant r < 2 ^ 53 \<and> - 1074 \<le> expo r \<and> dval r < 1)"

subsection \<open>Blinking\<close>

text \<open>
  The blink effect (lines 77-96) has an empty dependency list and reads no state. One
  timer is pending at any time: the outer one, whose callback closes the eyes, or the
  inner one, whose callback opens them and calls \<open>scheduleBlink\<close> again. Each timer is
  kept with the delay in milliseconds that is passed to \<open>setTimeout\<close>, and every timer
  the loop sets is logged. \<open>r1\<close>, \<open>r2\<close> are the results of the calls of
  \<open>Math.random()\<close>. The literal \<open>0.8\<close> is the double \<open>3602879701896397 * 2 ^ -52\<close>;
  the other literals are whole numbers.
\<close>

datatype blink_timer = BlinkStart real | BlinkEnd real

record blinker =
  isBlinking :: bool
  blinkTimeout :: blink_timer
  blinkLog :: "blink_timer list"

definition scheduleBlink :: "binary64 \<Rightarrow> binary64 \<Rightarrow> blink_timer" where
  "scheduleBlink r1 r2 =
     (let isDoubleBlink = dval r1 > dval (B64 3602879701896397 (- 52));
          delay = (if isDoubleBlink then B64 200 0
                   else fadd (fmul r2 (B64 5000 0)) (B64 2500 0))
      in BlinkStart (dval delay))"

definition blink_mount :: "binary64 \<Rightarrow> binary64 \<Rightarrow> blinker" where
  "blink_mount r1 r2 =
     \<lparr>isBlinking = False, blinkTimeout = scheduleBlink r1 r2,
      blinkLog = [scheduleBlink r1 r2]\<rparr>"

definition blink_fire :: "binary64 \<times> binary64 \<Rightarrow> blinker \<Rightarrow> blinker" where
  "blink_fire r b =
     (case blinkTimeout b of
        BlinkStart d \<Rightarrow>
          (let blinkDuration = fadd (fmul (fst r) (B64 50 0)) (B64 100 0)
           in b\<lparr>isBlinking := True, blinkTimeout := BlinkEnd (dval blinkDuration),
                blinkLog := blinkLog b @ [BlinkEnd (dval blinkDuration)]\<rparr>)
      | BlinkEnd d \<Rightarrow>
          b\<lparr>isBlinking := False, blinkTimeout := scheduleBlink (fst r) (snd r),
            blinkLog := blinkLog b @ [scheduleBlink (fst r) (snd r)]\<rparr>)"

definition blink_run :: "(binary64 \<times> binary64) list \<Rightarrow> blinker \<Rightarrow> blinker" where
  "blink_run rs b = fold blink_fire rs b"

text \<open>The ranges of the timers: a wait of exactly 200 or in [2500, 7500), a blink of a
  duration in [100, 150].\<close>

fun blink_timer_ok :: "blink_timer \<Rightarrow> bool" where
  "blink_timer_ok (BlinkStart d) = (d = 200 \<or> (2500 \<le> d \<and> d < 7500))"
| "blink_timer_ok (BlinkEnd d) = (100 \<le> d \<and> d \<le> 150)"

text \<open>What holds of the loop after every callback: the timers set so far are within
  their ranges, the last one set is the pending one, and the eyes are closed exactly while
  the inner timer is pending.\<close>

definition blink_inv :: "blinker \<Rightarrow> bool" where
  "blink_inv b =
     (list_all blink_timer_ok (blinkLog b)
      \<and> blinkLog b \<noteq> [] \<and> last (blinkLog b) = blinkTimeout b
      \<and> (isBlinking b \<longleftrightarrow> (\<exists>d. blinkTimeout b = BlinkEnd d)))"

subsection \<open>Idle gestures\<close>

text \<open>
  The idle-gesture effect (lines 132-157) has the dependency list \<open>[status]\<close>: React runs
  its cleanup and then its body again when a render sees a changed \<open>status\<close>, and at no
  other time. Each run of the body is a closure with its own \<open>actionTimeout\<close> variable;
  the cleanup of a run clears the timer that variable holds. A pending timer is kept with
  its handle, the run that set it, its kind and its delay.
\<close>

datatype idle_action = NoAction | Glance | Tilt | Shift

datatype timer_kind = ActionTimer | ResetTimer

record idle_timer =
  handle :: nat
  owner :: nat
  kind :: timer_kind
  delay :: real

record idler =
  idleStatus :: status
  enableIdleActions :: bool
  idleAction :: idle_action
  effectRun :: nat
  actionTimeout :: "nat option"
  pendingTimers :: "idle_timer list"
  nextHandle :: nat

text \<open>\<open>scheduleAction\<close> of the run \<open>k\<close>: a new timer, whose handle is assigned to the
  \<open>actionTimeout\<close> of that run; only the current run's variable is ever read again.\<close>

definition scheduleAction :: "real \<Rightarrow> nat \<Rightarrow> idler \<Rightarrow> idler" where
  "scheduleAction rnd k s =
     (let d = rnd * 8000 + 4000;
          h = nextHandle s;
          s1 = s\<lparr>pendingTimers :=
                  pendingTimers s @ [\<lparr>handle = h, owner = k, kind = ActionTimer, delay = d\<rparr>],
                nextHandle := Suc h\<rparr>
      in if k = effectRun s1 then s1\<lparr>actionTimeout := Some h\<rparr> else s1)"

definition idle_effect :: "real \<Rightarrow> idler \<Rightarrow> idler" where
  "idle_effect rnd s =
     (if idleStatus s \<noteq> Idle \<or> \<not> enableIdleActions s
      then s\<lparr>idleAction := NoAction\<rparr>
      else scheduleAction rnd (effectRun s) s)"

definition idle_cleanup :: "idler \<Rightarrow> idler" where
  "idle_cleanup s =
     (case actionTimeout s of
        None \<Rightarrow> s
      | Some h \<Rightarrow>
          s\<lparr>pendingTimers := filter (\<lambda>t. handle t \<noteq> h) (pendingTimers s),
            actionTimeout := None\<rparr>)"

definition idle_mount :: "real \<Rightarrow> idler" where
  "idle_mount rnd =
     idle_effect rnd
       \<lparr>idleStatus = Idle, enableIdleActions = True, idleAction = NoAction, effectRun = 0,
        actionTimeout = None, pendingTimers = [], nextHandle = 0\<rparr>"

definition setStatus :: "real \<Rightarrow> status \<Rightarrow> idler \<Rightarrow> idler" where
  "setStatus rnd st s =
     (if st = idleStatus s then s
      else
        (let s1 = idle_cleanup s;
             s2 = s1\<lparr>idleStatus := st, effectRun := Suc (effectRun s1)\<rparr>
         in idle_effect rnd s2))"

definition setEnableIdleActions :: "bool \<Rightarrow> idler \<Rightarrow> idler" where
  "setEnableIdleActions b s = s\<lparr>enableIdleActions := b\<rparr>"

text \<open>\<open>actions[Math.floor(Math.random() * actions.length)]\<close> over
  \<open>['glance', 'tilt', 'shift']\<close>; for a draw in [0, 1) the index is 0, 1 or 2.\<close>

definition pickAction :: "real \<Rightarrow> idle_action" where
  "pickAction rnd =
     (let i = \<lfloor>rnd * 3\<rfloor>
      in if i = 0 then Glance else if i = 1 then Tilt else Shift)"

text \<open>The callback of the pending timer with handle \<open>h\<close> runs (nothing happens when no
  such timer is pending). The callback of the outer timer draws twice, for the gesture
  and for the time it is held; the callback of the inner timer draws once, in
  \<open>scheduleAction\<close>.\<close>

definition fireTimer :: "real \<times> real \<Rightarrow> nat \<Rightarrow> idler \<Rightarrow> idler" where
  "fireTimer rnd h s =
     (case filter (\<lambda>t. handle t = h) (pendingTimers s) of
        [] \<Rightarrow> s
      | t # _ \<Rightarrow>
          (let s1 = s\<lparr>pendingTimers := filter (\<lambda>t. handle t \<noteq> h) (pendingTimers s)\<rparr>
           in case kind t of
                ActionTimer \<Rightarrow>
                  (let s2 = s1\<lparr>idleAction := pickAction (fst rnd)\<rparr>;
                       h2 = nextHandle s2
                   in s2\<lparr>pendingTimers :=
                          pendingTimers s2 @
                            [\<lparr>handle = h2, owner = owner t, kind = ResetTimer,
                              delay = 2000 + snd rnd * 1000\<rparr>],
                        nextHandle := Suc h2\<rparr>)
              | ResetTimer \<Rightarrow>
                  scheduleAction (fst rnd) (owner t) (s1\<lparr>idleAction := NoAction\<rparr>)))"

datatype idle_event =
    SetStatus status
  | SetEnableIdleActions bool
  | FireTimer nat

text \<open>An event comes with the draws of \<open>Math.random()\<close> that its handler makes (those
  it does not make are ignored).\<close>

fun idle_step :: "(real \<times> real) \<times> idle_event \<Rightarrow> idler \<Rightarrow> idler" where
  "idle_step (rnd, SetStatus st) s = setStatus (fst rnd) st s"
| "idle_step (rnd, SetEnableIdleActions b) s = setEnableIdleActions b s"
| "idle_step (rnd, FireTimer h) s = fireTimer rnd h s"

definition idle_run ::
  "((real \<times> real) \<times> idle_event) list \<Rightarrow> idler \<Rightarrow> idler" where
  "idle_run evs s = fold idle_step evs s"


section \<open>Memory note\<close>

text \<open>
  \<open>onMemoryUpdate\<close> (lines 290-293) stores the fact and sets a timer of 8000 ms whose
  callback is \<open>setLastMemory(null)\<close>; the handle of the timer is not kept. Time is counted
  in milliseconds; a pending timer is kept as the time at which it is due, and fires at
  that time.
\<close>

record memory_note =
  lastMemory :: "jsstring option"
  now :: nat
  clearTimers :: "nat list"

definition init_memory :: memory_note where
  "init_memory = \<lparr>lastMemory = None, now = 0, clearTimers = []\<rparr>"

definition onMemoryUpdate :: "jsstring \<Rightarrow> memory_note \<Rightarrow> memory_note" where
  "onMemoryUpdate txt m =
     (let m1 = m\<lparr>lastMemory := Some txt\<rparr>
      in m1\<lparr>clearTimers := clearTimers m1 @ [now m1 + 8000]\<rparr>)"

text \<open>\<open>d\<close> milliseconds pass with no callback of the collaborator; the timers due by then
  fire.\<close>

definition elapse :: "nat \<Rightarrow> memory_note \<Rightarrow> memory_note" where
  "elapse d m =
     (let t = now m + d;
          due = filter (\<lambda>x. x \<le> t) (clearTimers m)
      in m\<lparr>lastMemory := (if due = [] then lastMemory m else None),
           now := t,
           clearTimers := filter (\<lambda>x. t < x) (clearTimers m)\<rparr>)"

datatype memory_event = MemoryUpdate jsstring | Elapse nat

fun memory_step :: "memory_event \<Rightarrow> memory_note \<Rightarrow> memory_note" where
  "memory_step (MemoryUpdate txt) m = onMemoryUpdate txt m"
| "memory_step (Elapse d) m = elapse d m"

definition memory_run :: "memory_event list \<Rightarrow> memory_note \<Rightarrow> memory_note" where
  "memory_run evs m = fold memory_step evs m"

fun elapsed :: "memory_event list \<Rightarrow> nat" where
  "elapsed [] = 0"
| "elapsed (MemoryUpdate txt # evs) = elapsed evs"
| "elapsed (Elapse d # evs) = d + elapsed evs"


section \<open>Concrete states\<close>

text \<open>Concrete states: the avatar speaking mid-turn, and a session with the text
  \<open>hello\<close> typed into the input.\<close>

definition speaking_session :: app where
  "speaking_session =
     init_app\<lparr>status := Speaking, isTyping := True, audioLevel := 7/10,
       astraResponse := Some (js ''hi''), latestResponseRef := js ''hi''\<rparr>"

definition hello_session :: "status \<Rightarrow> app" where
  "hello_session st = init_app\<lparr>status := st, textInput := js ''hello''\<rparr>"


section \<open>Properties of the session controller\<close>

lemma trim_empty_iff: "trim s = [] \<longleftrightarrow> (\<forall>c \<in> set s. isWhiteSpace c)"
proof
  assume "trim s = []"
  then have a: "\<forall>x \<in> set (dropWhile isWhiteSpace s). isWhiteSpace x"
    by (simp add: trim_def dropWhile_eq_Nil_conv)
  have "dropWhile isWhiteSpace s = []"
  proof (rule ccontr)
    assume n: "dropWhile isWhiteSpace s \<noteq> []"
    then have "\<not> isWhiteSpace (hd (dropWhile isWhiteSpace s))"
      by (rule hd_dropWhile)
    moreover have "hd (dropWhile isWhiteSpace s) \<in> set (dropWhile isWhiteSpace s)"
      using n by simp
    ultimately show False using a by blast
  qed
  then show "\<forall>c \<in> set s. isWhiteSpace c"
    by (simp add: dropWhile_eq_Nil_conv)
next
  assume "\<forall>c \<in> set s. isWhiteSpace c"
  then have "dropWhile isWhiteSpace s = []"
    by (induction s) simp_all
  then show "trim s = []"
    by (simp only: trim_def rev.simps dropWhile.simps)
qed

text \<open>
  Claim C1, as stated: every transition into idle through the stop branch of
  \<open>toggleSession\<close>, the error callback or the turn-complete callback sets the stored
  audio level to zero. The two callbacks do not: after a session is started, the status
  becomes speaking and an audio level of one half is reported, turn completion enters
  idle with the audio level still one half, and so does the error callback.
\<close>

theorem C1_callbacks_keep_audio_level:
  "status (run [ToggleSession Started, StatusChange Speaking, AudioLevel (1/2), TurnComplete]
             init_app) = Idle
   \<and> audioLevel (run [ToggleSession Started, StatusChange Speaking, AudioLevel (1/2),
                       TurnComplete] init_app) = 1/2
   \<and> status (run [ToggleSession Started, StatusChange Speaking, AudioLevel (1/2),
                   Error (js ''Network error'')] init_app) = Idle
   \<and> audioLevel (run [ToggleSession Started, StatusChange Speaking, AudioLevel (1/2),
                       Error (js ''Network error'')] init_app) = 1/2"
  by (simp add: run_def init_app_def toggleSession_def onStatusChange_def
      onAudioLevel_def onTurnComplete_def onError_def js_def)

text \<open>
  Claim C1, amended: after every sequence of operations and callbacks the status is one of
  idle, listening, speaking; the stop branch of \<open>toggleSession\<close>, the error callback and
  the turn-complete callback each enter idle and clear the typing flag; the stop branch
  also sets the audio level to zero, while the two callbacks leave the stored audio level
  as it was.
\<close>

theorem C1_idle_entry:
  "status (run evs s) \<in> {Idle, Listening, Speaking}
   \<and> (status s \<noteq> Idle \<longrightarrow>
        status (toggleSession r s) = Idle \<and> \<not> isTyping (toggleSession r s)
        \<and> audioLevel (toggleSession r s) = 0)
   \<and> status (onError msg s) = Idle \<and> \<not> isTyping (onError msg s)
   \<and> audioLevel (onError msg s) = audioLevel s
   \<and> status (onTurnComplete s) = Idle \<and> \<not> isTyping (onTurnComplete s)
   \<and> audioLevel (onTurnComplete s) = audioLevel s"
proof -
  have "status (run evs s) \<in> {Idle, Listening, Speaking}"
    by (cases "status (run evs s)") simp_all
  moreover have "status s \<noteq> Idle \<longrightarrow>
        status (toggleSession r s) = Idle \<and> \<not> isTyping (toggleSession r s)
        \<and> audioLevel (toggleSession r s) = 0"
    by (simp add: toggleSession_def)
  moreover have "status (onError msg s) = Idle \<and> \<not> isTyping (onError msg s)
      \<and> audioLevel (onError msg s) = audioLevel s"
    by (simp add: onError_def Let_def)
  moreover have "status (onTurnComplete s) = Idle \<and> \<not> isTyping (onTurnComplete s)
      \<and> audioLevel (onTurnComplete s) = audioLevel s"
    by (simp add: onTurnComplete_def)
  ultimately show ?thesis by simp
qed

theorem C1_idle_entry_witness:
  "status speaking_session \<noteq> Idle
   \<and> status (toggleSession Started speaking_session) = Idle
   \<and> \<not> isTyping (toggleSession Started speaking_session)
   \<and> audioLevel (toggleSession Started speaking_session) = 0
   \<and> audioLevel (onTurnComplete speaking_session) = 7/10"
  using C1_idle_entry [of "[TurnComplete]" speaking_session Started "js ''x''"]
  by (simp add: speaking_session_def init_app_def)

text \<open>
  Claim C3, as stated: turn completion clears the last-received response text, so that the
  displayed response is empty afterwards. It is not: a transcription \<open>hi\<close> followed by
  turn completion leaves \<open>astraResponse\<close> holding \<open>hi\<close>.
\<close>

theorem C3_response_survives_turn_complete:
  "astraResponse (run [ToggleSession Started, StatusChange Speaking,
                       Transcription (js ''hi''), TurnComplete] init_app)
     = Some [0x68, 0x69]"
  by (simp add: run_def init_app_def toggleSession_def onStatusChange_def
      onTranscription_def onTurnComplete_def js_def)

text \<open>
  Claim C3, amended: the turn-complete callback resets the status to idle, clears the
  typing flag and clears the internal last-response ref \<open>latestResponseRef\<close>; the
  displayed response text \<open>astraResponse\<close> is left as it was.
\<close>

theorem C3_turn_complete:
  "status (onTurnComplete s) = Idle
   \<and> \<not> isTyping (onTurnComplete s)
   \<and> latestResponseRef (onTurnComplete s) = []
   \<and> astraResponse (onTurnComplete s) = astraResponse s"
  by (simp add: onTurnComplete_def)

text \<open>
  Claim C8: \<open>handleSendMessage\<close> changes nothing (no call on the collaborator, text input
  unchanged) when the input is empty or whitespace-only or the session is not connected;
  otherwise the text is forwarded to the collaborator and the prior response is cleared,
  and then on success typing is true and the input buffer is empty, on failure typing is
  false.
\<close>

theorem C8_sendMessage:
  "((\<forall>c \<in> set (textInput s). isWhiteSpace c) \<or> status s = Idle
      \<longrightarrow> handleSendMessage r s = s)
   \<and> ((\<exists>c \<in> set (textInput s). \<not> isWhiteSpace c) \<and> status s \<noteq> Idle
      \<longrightarrow> calls (handleSendMessage r s) = calls s @ [Send (textInput s)]
          \<and> astraResponse (handleSendMessage r s) = None
          \<and> isTyping (handleSendMessage SendOk s)
          \<and> textInput (handleSendMessage SendOk s) = []
          \<and> \<not> isTyping (handleSendMessage SendFailed s)
          \<and> textInput (handleSendMessage SendFailed s) = textInput s)"
proof -
  have blank: "(trim (textInput s) = []) = (\<forall>c \<in> set (textInput s). isWhiteSpace c)"
    by (rule trim_empty_iff)
  show ?thesis
    by (cases r) (auto simp add: handleSendMessage_def isConnected_def blank)
qed

theorem C8_sendMessage_witness:
  "status (hello_session Idle) = Idle
   \<and> handleSendMessage SendOk (hello_session Idle) = hello_session Idle
   \<and> (\<exists>c \<in> set (textInput (hello_session Listening)). \<not> isWhiteSpace c)
   \<and> status (hello_session Listening) \<noteq> Idle
   \<and> calls (handleSendMessage SendOk (hello_session Listening)) = [Send (js ''hello'')]
   \<and> textInput (handleSendMessage SendOk (hello_session Listening)) = []"
  using C8_sendMessage [of "hello_session Idle" SendOk]
    C8_sendMessage [of "hello_session Listening" SendOk]
  by (simp add: hello_session_def init_app_def js_def isWhiteSpace_def)

section \<open>Properties of animation commissioning\<close>


text \<open>
  Claim C4: \<open>handleAnimate\<close> changes nothing while the busy flag is set. Started with
  the flag clear, it ends with the flag clear and the progress string empty whatever the
  outcome; on success the URL is stored; on \<open>QUOTA_EXHAUSTED\<close> the stored error message
  contains \<open>Quota Exhausted\<close> and \<open>needsApiKey\<close> is true.
\<close>

theorem C4_handleAnimate:
  "(isAnimating s \<longrightarrow> handleAnimate msgs r s = s)
   \<and> (\<not> isAnimating s \<longrightarrow>
        \<not> isAnimating (handleAnimate msgs r s)
        \<and> animationStatus (handleAnimate msgs r s) = []
        \<and> videoUrl (handleAnimate msgs (AnimateOk url) s) = Some url
        \<and> (\<exists>e. error (handleAnimate msgs (AnimateFailed (Some (js ''QUOTA_EXHAUSTED''))) s)
                   = Some e
               \<and> js_includes e (js ''Quota Exhausted''))
        \<and> needsApiKey (handleAnimate msgs (AnimateFailed (Some (js ''QUOTA_EXHAUSTED''))) s))"
proof -
  have a: "\<not> isAnimating s \<Longrightarrow> \<not> isAnimating (handleAnimate msgs r s)
        \<and> animationStatus (handleAnimate msgs r s) = []"
    by (cases r) (simp_all add: handleAnimate_def Let_def)
  have b: "\<not> isAnimating s \<Longrightarrow> videoUrl (handleAnimate msgs (AnimateOk url) s) = Some url"
    by (simp add: handleAnimate_def Let_def)
  have c: "\<not> isAnimating s \<Longrightarrow>
      error (handleAnimate msgs (AnimateFailed (Some (js ''QUOTA_EXHAUSTED''))) s)
        = Some (js ''Neural Quota Exhausted: You have reached your API limit. Please switch to a Paid API key or wait for the quota to reset.'')
      \<and> needsApiKey (handleAnimate msgs (AnimateFailed (Some (js ''QUOTA_EXHAUSTED''))) s)"
    by (simp add: handleAnimate_def Let_def js_def)
  have d: "js_includes (js ''Neural Quota Exhausted: You have reached your API limit. Please switch to a Paid API key or wait for the quota to reset.'') (js ''Quota Exhausted'')"
    by (simp add: js_def)
  show ?thesis using a b c d by (simp add: handleAnimate_def)
qed

theorem C4_handleAnimate_witness:
  "isAnimating (init_app\<lparr>isAnimating := True\<rparr>)
   \<and> handleAnimate [js ''Rendering''] (AnimateOk (js ''blob:1'')) (init_app\<lparr>isAnimating := True\<rparr>)
       = init_app\<lparr>isAnimating := True\<rparr>
   \<and> \<not> isAnimating init_app
   \<and> \<not> isAnimating (handleAnimate [js ''Rendering''] (AnimateOk (js ''blob:1'')) init_app)
   \<and> animationStatus (handleAnimate [js ''Rendering''] (AnimateOk (js ''blob:1'')) init_app) = []
   \<and> videoUrl (handleAnimate [js ''Rendering''] (AnimateOk (js ''blob:1'')) init_app)
       = Some (js ''blob:1'')
   \<and> needsApiKey (handleAnimate [js ''Rendering'']
         (AnimateFailed (Some (js ''QUOTA_EXHAUSTED''))) init_app)"
  using C4_handleAnimate [of "init_app\<lparr>isAnimating := True\<rparr>" "[js ''Rendering'']"
      "AnimateOk (js ''blob:1'')" "js ''blob:1''"]
    C4_handleAnimate [of init_app "[js ''Rendering'']" "AnimateOk (js ''blob:1'')" "js ''blob:1''"]
  by (simp add: init_app_def)


section \<open>Properties of media acquisition\<close>
















section \<open>Properties of the lip sync\<close>

lemma trim_last:
  assumes "text \<noteq> []" and "\<not> isWhiteSpace (last text)"
  shows "trim text \<noteq> [] \<and> last (trim text) = last text"
proof -
  let ?d = "dropWhile isWhiteSpace text"
  have mem: "last text \<in> set text" using assms(1) by simp
  have dne: "?d \<noteq> []"
  proof
    assume "?d = []"
    then have "\<forall>x \<in> set text. isWhiteSpace x" by (simp only: dropWhile_eq_Nil_conv)
    then show False using mem assms(2) by blast
  qed
  have "text = takeWhile isWhiteSpace text @ ?d" by simp
  then have "last text = last (takeWhile isWhiteSpace text @ ?d)" by simp
  also have "\<dots> = last ?d" using dne by (rule last_appendR)
  finally have ld: "last ?d = last text" by simp
  have "rev ?d = last ?d # rev (butlast ?d)"
    using dne by (metis append_butlast_last_id rev.simps(2) rev_append rev_rev_ident append_Cons append_Nil rev_singleton_conv)
  moreover have "dropWhile isWhiteSpace (last ?d # rev (butlast ?d)) = last ?d # rev (butlast ?d)"
    using assms(2) ld by simp
  ultimately have "dropWhile isWhiteSpace (rev ?d) = rev ?d"
    by (simp only:)
  then have "trim text = ?d" by (simp add: trim_def)
  then show ?thesis using dne ld by simp
qed

lemma lastChar_648:
  assumes "text \<noteq> []" and "last text = 0x648"
  shows "lastChar text = [0x648]"
proof -
  have w: "\<not> isWhiteSpace (last text)" using assms(2) by (simp add: isWhiteSpace_def)
  have "trim text \<noteq> [] \<and> last (trim text) = last text" using assms(1) w by (rule trim_last)
  then show ?thesis using assms(2) by (simp add: lastChar_def slice_last_def toLowerCase_def)
qed

lemma trim_snoc:
  assumes "\<not> isWhiteSpace c" and "\<forall>w \<in> set ws. isWhiteSpace w"
  shows "\<exists>d. trim (pre @ [c] @ ws) = d @ [c]"
proof -
  have "\<exists>d. dropWhile isWhiteSpace (pre @ [c]) = d @ [c]"
  proof (cases "\<forall>x \<in> set pre. isWhiteSpace x")
    case True
    then have "dropWhile isWhiteSpace (pre @ [c]) = dropWhile isWhiteSpace [c]"
      by (simp add: dropWhile_append2)
    then show ?thesis using assms(1) by simp
  next
    case False
    then obtain x where "x \<in> set pre" "\<not> isWhiteSpace x" by blast
    then have "dropWhile isWhiteSpace (pre @ [c]) = dropWhile isWhiteSpace pre @ [c]"
      by (rule dropWhile_append1)
    then show ?thesis by blast
  qed
  then obtain d where d: "dropWhile isWhiteSpace (pre @ [c]) = d @ [c]" by blast
  have "dropWhile isWhiteSpace ((pre @ [c]) @ ws) = dropWhile isWhiteSpace (pre @ [c]) @ ws"
    using assms(1) by (intro dropWhile_append1 [of c]) simp_all
  then have front: "dropWhile isWhiteSpace (pre @ [c] @ ws) = d @ [c] @ ws"
    using d by simp
  have "dropWhile isWhiteSpace (rev ws @ (c # rev d)) = dropWhile isWhiteSpace (c # rev d)"
    using assms(2) by (intro dropWhile_append2) simp
  then have "dropWhile isWhiteSpace (rev (d @ [c] @ ws)) = c # rev d"
    using assms(1) by simp
  then have "trim (pre @ [c] @ ws) = d @ [c]"
    by (simp only: trim_def front) simp
  then show ?thesis by blast
qed

lemma lastChar_snoc:
  assumes "\<not> isWhiteSpace c" and "\<forall>w \<in> set ws. isWhiteSpace w"
  shows "lastChar (pre @ [c] @ ws) = [if 0x41 \<le> c \<and> c \<le> 0x5A then c + 0x20 else c]"
proof -
  obtain d where "trim (pre @ [c] @ ws) = d @ [c]"
    using trim_snoc [OF assms] by blast
  then show ?thesis by (simp add: lastChar_def slice_last_def toLowerCase_def)
qed

lemma lastChar_blank:
  assumes "\<forall>w \<in> set text. isWhiteSpace w"
  shows "lastChar text = []"
proof -
  have "trim text = []" using assms by (simp only: trim_empty_iff)
  then show ?thesis by (simp add: lastChar_def slice_last_def toLowerCase_def)
qed

text \<open>
  Claim C5: the mouth shape is a function of the status and the response text, and of
  the random draw for vowels only. It is (1, 0) whenever the status is not speaking or
  the response is \<open>null\<close> or empty. While speaking, for a text whose last code unit
  before any trailing white space is \<open>c\<close>, it is given by \<open>c\<close> with a Basic Latin capital
  lower-cased: (1.2 + 0.1 * draw, 1.5) for the vowel letters, (0.85, -0.5) for the
  plosive letters, (1.05, 0.8) for the fricative letters, and (1.1, 0.3) otherwise, also
  for a text of white space only. The skew never depends on the draw, and between two
  draws in [0, 1) the scale differs by less than 0.11 (by at most 0.1 in exact
  arithmetic).
\<close>

theorem C5_lipSync:
  "(st \<noteq> Speaking \<or> resp = None \<or> resp = Some [] \<longrightarrow>
      lipSync rnd st resp = \<lparr>scale = 1, skew = 0\<rparr>)
   \<and> (\<not> isWhiteSpace c \<and> (\<forall>w \<in> set ws. isWhiteSpace w) \<longrightarrow>
        lipSync rnd Speaking (Some (pre @ [c] @ ws)) =
          (let l = (if 0x41 \<le> c \<and> c \<le> 0x5A then c + 0x20 else c)
           in if l \<in> {0x61, 0x65, 0x6F, 0x622, 0x627, 0x648, 0x75, 0x69, 0x6CC}
              then \<lparr>scale = 1.2 + rnd * 0.1, skew = 1.5\<rparr>
              else if l \<in> {0x70, 0x62, 0x6D, 0x74, 0x64, 0x67E, 0x628, 0x645, 0x62A, 0x62F}
              then \<lparr>scale = 0.85, skew = - 0.5\<rparr>
              else if l \<in> {0x66, 0x76, 0x73, 0x7A, 0x641, 0x648, 0x633, 0x632}
              then \<lparr>scale = 1.05, skew = 0.8\<rparr>
              else \<lparr>scale = 1.1, skew = 0.3\<rparr>))
   \<and> (text \<noteq> [] \<and> (\<forall>w \<in> set text. isWhiteSpace w) \<longrightarrow>
        lipSync rnd Speaking (Some text) = \<lparr>scale = 1.1, skew = 0.3\<rparr>)
   \<and> skew (lipSync rnd st resp) = skew (lipSync rnd' st resp)
   \<and> (unit_draw rnd \<and> unit_draw rnd' \<longrightarrow>
        \<bar>scale (lipSync rnd st resp) - scale (lipSync rnd' st resp)\<bar> < 0.11)"
proof -
  have a: "st \<noteq> Speaking \<or> resp = None \<or> resp = Some [] \<longrightarrow>
      lipSync rnd st resp = \<lparr>scale = 1, skew = 0\<rparr>"
    by (simp add: lipSync_def)
  have b: "lipSync rnd Speaking (Some (pre @ [c] @ ws)) =
          (let l = (if 0x41 \<le> c \<and> c \<le> 0x5A then c + 0x20 else c)
           in if l \<in> {0x61, 0x65, 0x6F, 0x622, 0x627, 0x648, 0x75, 0x69, 0x6CC}
              then \<lparr>scale = 1.2 + rnd * 0.1, skew = 1.5\<rparr>
              else if l \<in> {0x70, 0x62, 0x6D, 0x74, 0x64, 0x67E, 0x628, 0x645, 0x62A, 0x62F}
              then \<lparr>scale = 0.85, skew = - 0.5\<rparr>
              else if l \<in> {0x66, 0x76, 0x73, 0x7A, 0x641, 0x648, 0x633, 0x632}
              then \<lparr>scale = 1.05, skew = 0.8\<rparr>
              else \<lparr>scale = 1.1, skew = 0.3\<rparr>)"
    if "\<not> isWhiteSpace c" "\<forall>w \<in> set ws. isWhiteSpace w"
  proof -
    have "lastChar (pre @ [c] @ ws) = [if 0x41 \<le> c \<and> c \<le> 0x5A then c + 0x20 else c]"
      using that by (rule lastChar_snoc)
    then show ?thesis
      by (simp add: lipSync_def Let_def vowels_def plosives_def fricatives_def js_def)
  qed
  have e: "lipSync rnd Speaking (Some text) = \<lparr>scale = 1.1, skew = 0.3\<rparr>"
    if "text \<noteq> []" "\<forall>w \<in> set text. isWhiteSpace w"
  proof -
    have "lastChar text = []" using that(2) by (rule lastChar_blank)
    then show ?thesis using that(1)
      by (simp add: lipSync_def Let_def vowels_def plosives_def fricatives_def js_def)
  qed
  have f: "skew (lipSync rnd st resp) = skew (lipSync rnd' st resp)"
    by (simp add: lipSync_def Let_def)
  have g: "\<bar>scale (lipSync rnd st resp) - scale (lipSync rnd' st resp)\<bar> < 0.11"
    if "unit_draw rnd" "unit_draw rnd'"
  proof -
    have "\<bar>rnd / 10 - rnd' / 10\<bar> * 100 < 11"
      using that unfolding unit_draw_def by (simp add: abs_if)
    then show ?thesis by (simp add: lipSync_def Let_def)
  qed
  show ?thesis using a b e f g by blast
qed

theorem C5_lipSync_witness:
  "lipSync (1/2) Listening (Some (js ''HELLO '')) = \<lparr>scale = 1, skew = 0\<rparr>
   \<and> \<not> isWhiteSpace 0x4F \<and> list_all isWhiteSpace (js '' '')
   \<and> lipSync (1/2) Speaking (Some (js ''HELLO '')) = \<lparr>scale = 1.25, skew = 1.5\<rparr>
   \<and> js ''  '' \<noteq> [] \<and> list_all isWhiteSpace (js ''  '')
   \<and> lipSync (1/2) Speaking (Some (js ''  '')) = \<lparr>scale = 1.1, skew = 0.3\<rparr>
   \<and> unit_draw (1/2) \<and> unit_draw 0
   \<and> \<bar>scale (lipSync (1/2) Speaking (Some (js ''HELLO '')))
        - scale (lipSync 0 Speaking (Some (js ''HELLO '')))\<bar> < 0.11"
  using C5_lipSync [of Listening "Some (js ''HELLO '')" "1/2" "0x4F" "js '' ''" "js ''HELL''"
      "js ''  ''" 0]
    C5_lipSync [of Speaking "Some (js ''HELLO '')" "1/2" "0x4F" "js '' ''" "js ''HELL''"
      "js ''  ''" 0]
  by (simp add: js_def unit_draw_def isWhiteSpace_def)

text \<open>
  Claim C10: the letter U+0648 is an entry of both the vowel table and the fricative
  table; the vowel table is tested first, so while speaking a response text that ends in
  this letter gives the vowel shape, never the fricative one.
\<close>

theorem C10_waw_is_vowel:
  "[0x648] \<in> set vowels \<and> [0x648] \<in> set fricatives
   \<and> (text \<noteq> [] \<and> last text = 0x648 \<longrightarrow>
        lipSync rnd Speaking (Some text) = \<lparr>scale = 1.2 + rnd * 0.1, skew = 1.5\<rparr>
        \<and> lipSync rnd Speaking (Some text) \<noteq> \<lparr>scale = 1.05, skew = 0.8\<rparr>)"
proof -
  have v: "[0x648] \<in> set vowels" by (simp add: vowels_def)
  have f: "[0x648] \<in> set fricatives" by (simp add: fricatives_def)
  have "lipSync rnd Speaking (Some text) = \<lparr>scale = 1.2 + rnd * 0.1, skew = 1.5\<rparr>"
    if "text \<noteq> []" "last text = 0x648"
    using that v lastChar_648 [OF that] by (simp add: lipSync_def)
  then show ?thesis using v f by simp
qed

theorem C10_waw_is_vowel_witness:
  "[0x62F, 0x648] \<noteq> [] \<and> last [0x62F, 0x648 :: code_unit] = 0x648
   \<and> lipSync 0 Speaking (Some [0x62F, 0x648]) = \<lparr>scale = 1.2, skew = 1.5\<rparr>"
  using C10_waw_is_vowel [of "[0x62F, 0x648]" 0]
  by simp

section \<open>Properties of the blink loop\<close>

subsection \<open>Rounding\<close>

lemma two_powr_int: "0 \<le> i \<Longrightarrow> 2 powr (real_of_int i) = 2 ^ nat i"
  using powr_realpow [of 2 "nat i"] by simp

lemma two_powr_neg_int: "i < 0 \<Longrightarrow> 2 powr (real_of_int i) = 1 / 2 ^ nat (- i)"
  using powr_realpow [of 2 "nat (- i)"] powr_minus_divide [of 2 "real_of_int (- i)"] by simp

lemma dval_powr: "dval x = real_of_int (mant x) * 2 powr (real_of_int (expo x))"
  by (cases "0 \<le> expo x") (simp_all add: dval_def two_powr_int two_powr_neg_int)

lemma rne_near_int:
  assumes "0 \<le> m"
  shows "\<bar>2 * rne m k * 2 ^ k - 2 * m\<bar> \<le> 2 ^ k"
proof -
  define P :: int where "P = 2 ^ k"
  define q where "q = m div P"
  define r where "r = m mod P"
  have P: "0 < P" by (simp add: P_def)
  have m: "q * P + r = m" by (simp add: q_def r_def)
  have r: "0 \<le> r" "r < P" using P by (simp_all add: r_def)
  have n: "(if 2 * r < P then q else if P < 2 * r then q + 1
      else if even q then q else q + 1) = rne m k"
    by (simp add: rne_def Let_def P_def q_def r_def)
  have "\<bar>2 * (if 2 * r < P then q else if P < 2 * r then q + 1
      else if even q then q else q + 1) * P - 2 * (q * P + r)\<bar> \<le> P"
    using r by (auto simp add: algebra_simps abs_if)
  then have "\<bar>2 * rne m k * P - 2 * m\<bar> \<le> P"
    by (simp only: n m)
  then show ?thesis by (simp add: P_def)
qed

lemma rne_near:
  assumes "0 \<le> m"
  shows "\<bar>real_of_int (rne m k) - real_of_int m / 2 ^ k\<bar> \<le> 1 / 2"
proof -
  have "real_of_int \<bar>2 * rne m k * 2 ^ k - 2 * m\<bar> \<le> real_of_int (2 ^ k)"
    using rne_near_int [OF assms, of k] by (simp only: of_int_le_iff)
  then have "\<bar>2 * real_of_int (rne m k) * 2 ^ k - 2 * real_of_int m\<bar> \<le> 2 ^ k"
    by simp
  then have "\<bar>(real_of_int (rne m k) - real_of_int m / 2 ^ k) * (2 * 2 ^ k)\<bar> \<le> 2 ^ k"
    by (simp add: algebra_simps)
  then have "\<bar>real_of_int (rne m k) - real_of_int m / 2 ^ k\<bar> * (2 * 2 ^ k) \<le> 2 ^ k"
    by (simp add: abs_mult)
  then show ?thesis
    by (simp add: field_simps)
qed

lemma rne_zero_shift: "rne m 0 = m"
  by (simp add: rne_def)

lemma rne_nonneg: "0 \<le> m \<Longrightarrow> 0 \<le> rne m k"
  by (simp add: rne_def Let_def pos_imp_zdiv_nonneg_iff)

lemma round64_pos:
  assumes "0 < m" and "- 1074 \<le> e"
  shows "round64 m e = B64 (rne m (nat (bitlen m - 53))) (e + int (nat (bitlen m - 53)))"
proof -
  have "nat (max (bitlen m - 53) (- 1074 - e)) = nat (bitlen m - 53)"
    using assms(2) by (simp add: max_def)
  then show ?thesis using assms(1) by (simp add: round64_def Let_def)
qed

lemma round64_zero: "- 1074 \<le> e \<Longrightarrow> round64 0 e = B64 0 e"
  by (simp add: round64_def Let_def max_def)

text \<open>The rounded value, on the grid of the binade of the exact value.\<close>

lemma round64_le:
  assumes m: "0 < m" and e: "- 1074 \<le> e" and M: "M < 2 ^ 53"
    and le: "real_of_int m * 2 powr (real_of_int e) \<le> real_of_int M * 2 powr (real_of_int E)"
  shows "dval (round64 m e) \<le> real_of_int M * 2 powr (real_of_int E)"
proof -
  define k where "k = nat (bitlen m - 53)"
  define n where "n = rne m k"
  have r: "round64 m e = B64 n (e + int k)"
    using round64_pos [OF m e] by (simp add: k_def n_def)
  have dv: "dval (round64 m e) = real_of_int n * 2 powr (real_of_int (e + int k))"
    by (simp only: r dval_powr binary64.sel)
  show ?thesis
  proof (cases "k = 0")
    case True
    then show ?thesis using r le by (simp add: n_def rne_zero_shift dval_powr)
  next
    case False
    then have bl: "bitlen m = 53 + int k" by (simp add: k_def)
    have "2 ^ nat (bitlen m - 1) \<le> m" using bitlen_bounds [OF m] by simp
    then have low: "(2::int) ^ (52 + k) \<le> m" by (simp add: bl nat_add_distrib)
    have x_low: "2 powr (real_of_int (52 + int k + e)) \<le> real_of_int m * 2 powr (real_of_int e)"
    proof -
      have "real_of_int ((2::int) ^ (52 + k)) \<le> real_of_int m"
        using low by (simp only: of_int_le_iff)
      then have "2 ^ (52 + k) * 2 powr (real_of_int e) \<le> real_of_int m * 2 powr (real_of_int e)"
        by (simp add: mult_right_mono)
      moreover have "2 powr (real_of_int (52 + int k + e))
          = 2 ^ (52 + k) * 2 powr (real_of_int e)"
        using two_powr_int [of "52 + int k"] by (simp add: powr_add nat_add_distrib)
      ultimately show ?thesis by simp
    qed
    have Mpos: "0 < M"
    proof (rule ccontr)
      assume "\<not> 0 < M"
      then have "real_of_int M * 2 powr (real_of_int E) \<le> 0"
        by (simp add: mult_nonpos_nonneg)
      moreover have "0 < 2 powr (real_of_int (52 + int k + e))" by simp
      ultimately show False using x_low le by linarith
    qed
    have "real_of_int M * 2 powr (real_of_int E) < 2 ^ 53 * 2 powr (real_of_int E)"
      using M by (simp add: mult_strict_right_mono)
    also have "\<dots> = 2 powr (real_of_int (53 + E))"
      using two_powr_int [of 53] by (simp add: powr_add)
    finally have "2 powr (real_of_int (52 + int k + e)) < 2 powr (real_of_int (53 + E))"
      using x_low le by linarith
    then have "real_of_int (52 + int k + e) < real_of_int (53 + E)"
      by simp
    then have Ege: "e + int k \<le> E" by linarith
    define d where "d = nat (E - e - int k)"
    have E: "E = e + int k + int d" using Ege by (simp add: d_def)
    have hi: "real_of_int M * 2 powr (real_of_int E)
        = real_of_int (M * 2 ^ d) * 2 powr (real_of_int (e + int k))"
      using two_powr_int [of "int d"] by (simp add: E powr_add)
    have xg: "real_of_int m * 2 powr (real_of_int e)
        = (real_of_int m / 2 ^ k) * 2 powr (real_of_int (e + int k))"
      using two_powr_int [of "int k"] by (simp add: powr_add)
    have "(real_of_int m / 2 ^ k) * 2 powr (real_of_int (e + int k))
        \<le> real_of_int (M * 2 ^ d) * 2 powr (real_of_int (e + int k))"
      using le hi xg by simp
    then have q: "real_of_int m / 2 ^ k \<le> real_of_int (M * 2 ^ d)"
      by (simp only: mult_le_cancel_right) simp
    have "\<bar>real_of_int n - real_of_int m / 2 ^ k\<bar> \<le> 1 / 2"
      unfolding n_def using m by (intro rne_near) simp
    then have "real_of_int n \<le> real_of_int m / 2 ^ k + 1 / 2"
      by linarith
    then have "real_of_int n \<le> real_of_int (M * 2 ^ d) + 1 / 2"
      using q by linarith
    then have "n \<le> M * 2 ^ d" by linarith
    then have "real_of_int n \<le> real_of_int (M * 2 ^ d)" by (simp only: of_int_le_iff)
    then have "real_of_int n * 2 powr (real_of_int (e + int k))
        \<le> real_of_int (M * 2 ^ d) * 2 powr (real_of_int (e + int k))"
      by (simp add: mult_right_mono)
    then show ?thesis by (simp only: dv hi)
  qed
qed

lemma round64_ge:
  assumes m: "0 < m" and e: "- 1074 \<le> e" and M: "M < 2 ^ 53"
    and le: "real_of_int M * 2 powr (real_of_int E) \<le> real_of_int m * 2 powr (real_of_int e)"
  shows "real_of_int M * 2 powr (real_of_int E) \<le> dval (round64 m e)"
proof -
  define k where "k = nat (bitlen m - 53)"
  define n where "n = rne m k"
  have r: "round64 m e = B64 n (e + int k)"
    using round64_pos [OF m e] by (simp add: k_def n_def)
  have dv: "dval (round64 m e) = real_of_int n * 2 powr (real_of_int (e + int k))"
    by (simp only: r dval_powr binary64.sel)
  have "\<bar>real_of_int n - real_of_int m / 2 ^ k\<bar> \<le> 1 / 2"
    unfolding n_def using m by (intro rne_near) simp
  then have near: "real_of_int m / 2 ^ k - 1 / 2 \<le> real_of_int n"
    by linarith
  show ?thesis
  proof (cases "k = 0")
    case True
    then show ?thesis using r le by (simp add: n_def rne_zero_shift dval_powr)
  next
    case False
    then have bl: "bitlen m = 53 + int k" by (simp add: k_def)
    have "2 ^ nat (bitlen m - 1) \<le> m" using bitlen_bounds [OF m] by simp
    then have low: "(2::int) ^ (52 + k) \<le> m" by (simp add: bl nat_add_distrib)
    have "real_of_int ((2::int) ^ (52 + k)) \<le> real_of_int m"
      using low by (simp only: of_int_le_iff)
    then have "(2::real) ^ 52 * 2 ^ k \<le> real_of_int m"
      by (simp add: power_add)
    then have "(2::real) ^ 52 \<le> real_of_int m / 2 ^ k"
      by (simp add: field_simps)
    then have "real_of_int ((2::int) ^ 52) - 1 / 2 \<le> real_of_int n"
      using near by simp
    then have n52: "(2::int) ^ 52 \<le> n" by linarith
    have xg: "real_of_int m * 2 powr (real_of_int e)
        = (real_of_int m / 2 ^ k) * 2 powr (real_of_int (e + int k))"
      using two_powr_int [of "int k"] by (simp add: powr_add)
    show ?thesis
    proof (cases "e + int k \<le> E")
      case True
      define d where "d = nat (E - e - int k)"
      have E: "E = e + int k + int d" using True by (simp add: d_def)
      have lo: "real_of_int M * 2 powr (real_of_int E)
          = real_of_int (M * 2 ^ d) * 2 powr (real_of_int (e + int k))"
        using two_powr_int [of "int d"] by (simp add: E powr_add)
      have "real_of_int (M * 2 ^ d) * 2 powr (real_of_int (e + int k))
          \<le> (real_of_int m / 2 ^ k) * 2 powr (real_of_int (e + int k))"
        using le lo xg by simp
      then have q: "real_of_int (M * 2 ^ d) \<le> real_of_int m / 2 ^ k"
        by (simp only: mult_le_cancel_right) simp
      then have "real_of_int (M * 2 ^ d) - 1 / 2 \<le> real_of_int n"
        using near by linarith
      then have "M * 2 ^ d \<le> n" by linarith
      then have "real_of_int (M * 2 ^ d) \<le> real_of_int n" by (simp only: of_int_le_iff)
      then have "real_of_int (M * 2 ^ d) * 2 powr (real_of_int (e + int k))
          \<le> real_of_int n * 2 powr (real_of_int (e + int k))"
        by (simp add: mult_right_mono)
      then show ?thesis by (simp only: dv lo)
    next
      case False
      then have "E + 1 \<le> e + int k" by simp
      then have "real_of_int (E + 1) \<le> real_of_int (e + int k)"
        by (simp only: of_int_le_iff)
      then have "2 powr (real_of_int (E + 1)) \<le> 2 powr (real_of_int (e + int k))"
        by (intro powr_mono) simp_all
      then have g: "2 * 2 powr (real_of_int E) \<le> 2 powr (real_of_int (e + int k))"
        by (simp add: powr_add)
      have "real_of_int M * 2 powr (real_of_int E) \<le> 2 ^ 53 * 2 powr (real_of_int E)"
        using M by (simp add: mult_right_mono)
      also have "\<dots> = 2 ^ 52 * (2 * 2 powr (real_of_int E))" by simp
      also have "\<dots> \<le> 2 ^ 52 * 2 powr (real_of_int (e + int k))"
        using g by (intro mult_left_mono) simp_all
      also have "\<dots> \<le> real_of_int n * 2 powr (real_of_int (e + int k))"
      proof -
        have "real_of_int ((2::int) ^ 52) \<le> real_of_int n"
          using n52 by (simp only: of_int_le_iff)
        then show ?thesis by (simp add: mult_right_mono)
      qed
      finally show ?thesis by (simp only: dv)
    qed
  qed
qed

lemma round64_parts:
  assumes "0 \<le> m" and "- 1074 \<le> e"
  shows "0 \<le> mant (round64 m e) \<and> - 1074 \<le> expo (round64 m e)"
proof (cases "m = 0")
  case True
  then show ?thesis using assms(2) by (simp add: round64_zero)
next
  case False
  then have "0 < m" using assms(1) by simp
  then show ?thesis using assms(2) by (simp add: round64_pos rne_nonneg)
qed

lemma round64_nonneg:
  assumes "0 \<le> m" and "- 1074 \<le> e"
  shows "0 \<le> dval (round64 m e)"
proof -
  have "0 \<le> mant (round64 m e)" using round64_parts [OF assms] by simp
  then show ?thesis by (simp add: dval_powr)
qed

lemma fmul_const:
  "fmul r (B64 c 0) = round64 (mant r * c) (expo r)"
  by (simp add: fmul_def)

lemma fmul_const_exact:
  "real_of_int (mant r * c) * 2 powr (real_of_int (expo r)) = dval r * real_of_int c"
  by (simp add: dval_powr)

lemma fmul_const_le:
  assumes "0 \<le> mant r" and "- 1074 \<le> expo r" and "0 < c" and "0 \<le> M" and "M < 2 ^ 53"
    and "dval r * real_of_int c \<le> real_of_int M * 2 powr (real_of_int E)"
  shows "dval (fmul r (B64 c 0)) \<le> real_of_int M * 2 powr (real_of_int E)"
proof (cases "mant r = 0")
  case True
  then have "dval (fmul r (B64 c 0)) = 0"
    using assms(2) by (simp add: fmul_const round64_zero dval_powr)
  then show ?thesis using assms(4) by simp
next
  case False
  then have "0 < mant r * c" using assms(1,3) by simp
  have "dval (round64 (mant r * c) (expo r)) \<le> real_of_int M * 2 powr (real_of_int E)"
  proof (rule round64_le)
    show "0 < mant r * c" by fact
    show "- 1074 \<le> expo r" by fact
    show "M < 2 ^ 53" by fact
    show "real_of_int (mant r * c) * 2 powr (real_of_int (expo r))
        \<le> real_of_int M * 2 powr (real_of_int E)"
      using assms(6) by (simp only: fmul_const_exact)
  qed
  then show ?thesis by (simp only: fmul_const)
qed

lemma fmul_const_parts:
  assumes "0 \<le> mant r" and "- 1074 \<le> expo r" and "0 < c"
  shows "0 \<le> mant (fmul r (B64 c 0)) \<and> - 1074 \<le> expo (fmul r (B64 c 0))
    \<and> 0 \<le> dval (fmul r (B64 c 0))"
proof -
  have "0 \<le> mant r * c" using assms(1,3) by simp
  then show ?thesis
    unfolding fmul_const using assms(2) round64_parts round64_nonneg by blast
qed

lemma fadd_const:
  "fadd a (B64 c 0) =
     round64 (mant a * 2 ^ nat (expo a - min (expo a) 0) + c * 2 ^ nat (- min (expo a) 0))
       (min (expo a) 0)"
  by (simp add: fadd_def Let_def)

lemma fadd_const_exact:
  "real_of_int (mant a * 2 ^ nat (expo a - min (expo a) 0) + c * 2 ^ nat (- min (expo a) 0))
     * 2 powr (real_of_int (min (expo a) 0))
   = dval a + real_of_int c"
proof -
  define e where "e = min (expo a) 0"
  have e: "e \<le> expo a" "e \<le> 0" by (simp_all add: e_def)
  have a: "2 ^ nat (expo a - e) * 2 powr (real_of_int e) = 2 powr (real_of_int (expo a))"
  proof -
    have p: "2 powr (real_of_int (expo a - e)) = 2 ^ nat (expo a - e)"
      using e(1) by (intro two_powr_int) simp
    have "2 powr (real_of_int (expo a - e)) * 2 powr (real_of_int e)
        = 2 powr (real_of_int (expo a - e) + real_of_int e)"
      by (simp only: powr_add)
    also have "\<dots> = 2 powr (real_of_int (expo a))" by simp
    finally show ?thesis by (simp only: p)
  qed
  have c: "2 ^ nat (- e) * 2 powr (real_of_int e) = (1::real)"
  proof -
    have p: "2 powr (real_of_int (- e)) = 2 ^ nat (- e)"
      using e(2) by (intro two_powr_int) simp
    have "2 powr (real_of_int (- e)) * 2 powr (real_of_int e)
        = 2 powr (real_of_int (- e) + real_of_int e)"
      by (simp only: powr_add)
    also have "\<dots> = 1" by simp
    finally show ?thesis by (simp only: p)
  qed
  have "real_of_int (mant a * 2 ^ nat (expo a - e) + c * 2 ^ nat (- e)) * 2 powr (real_of_int e)
      = real_of_int (mant a) * (2 ^ nat (expo a - e) * 2 powr (real_of_int e))
        + real_of_int c * (2 ^ nat (- e) * 2 powr (real_of_int e))"
    by (simp add: algebra_simps)
  also have "\<dots> = dval a + real_of_int c"
    by (simp only: a c dval_powr mult_1_right)
  finally show ?thesis by (simp only: e_def)
qed

lemma fadd_const_pos:
  assumes "0 \<le> mant a" and "0 < c"
  shows "0 < mant a * 2 ^ nat (expo a - min (expo a) 0) + c * 2 ^ nat (- min (expo a) 0)"
proof -
  have "0 \<le> mant a * 2 ^ nat (expo a - min (expo a) 0)" using assms(1) by simp
  moreover have "0 < c * 2 ^ nat (- min (expo a) 0)" using assms(2) by simp
  ultimately show ?thesis by linarith
qed

lemma fadd_const_le:
  assumes "0 \<le> mant a" and "- 1074 \<le> expo a" and "0 < c" and "M < 2 ^ 53"
    and "dval a + real_of_int c \<le> real_of_int M * 2 powr (real_of_int E)"
  shows "dval (fadd a (B64 c 0)) \<le> real_of_int M * 2 powr (real_of_int E)"
proof -
  let ?m = "mant a * 2 ^ nat (expo a - min (expo a) 0) + c * 2 ^ nat (- min (expo a) 0)"
  have "dval (round64 ?m (min (expo a) 0)) \<le> real_of_int M * 2 powr (real_of_int E)"
  proof (rule round64_le)
    show "0 < ?m" by (rule fadd_const_pos [OF assms(1,3)])
    show "- 1074 \<le> min (expo a) 0" using assms(2) by simp
    show "M < 2 ^ 53" by fact
    show "real_of_int ?m * 2 powr (real_of_int (min (expo a) 0))
        \<le> real_of_int M * 2 powr (real_of_int E)"
      using assms(5) by (simp only: fadd_const_exact)
  qed
  then show ?thesis by (simp only: fadd_const)
qed

lemma fadd_const_ge:
  assumes "0 \<le> mant a" and "- 1074 \<le> expo a" and "0 < c" and "M < 2 ^ 53"
    and "real_of_int M * 2 powr (real_of_int E) \<le> dval a + real_of_int c"
  shows "real_of_int M * 2 powr (real_of_int E) \<le> dval (fadd a (B64 c 0))"
proof -
  let ?m = "mant a * 2 ^ nat (expo a - min (expo a) 0) + c * 2 ^ nat (- min (expo a) 0)"
  have "real_of_int M * 2 powr (real_of_int E) \<le> dval (round64 ?m (min (expo a) 0))"
  proof (rule round64_ge)
    show "0 < ?m" by (rule fadd_const_pos [OF assms(1,3)])
    show "- 1074 \<le> min (expo a) 0" using assms(2) by simp
    show "M < 2 ^ 53" by fact
    show "real_of_int M * 2 powr (real_of_int E)
        \<le> real_of_int ?m * 2 powr (real_of_int (min (expo a) 0))"
      using assms(5) by (simp only: fadd_const_exact)
  qed
  then show ?thesis by (simp only: fadd_const)
qed

text \<open>A double below 1 is at most the largest double below 1.\<close>

lemma unit_draw64_le:
  assumes "unit_draw64 r"
  shows "dval r \<le> 1 - 1 / 2 ^ 53"
proof (cases "- 53 \<le> expo r")
  case True
  define N where "N = mant r * 2 ^ nat (expo r + 53)"
  have p: "2 powr (real_of_int (expo r + 53)) = 2 ^ nat (expo r + 53)"
    using True by (intro two_powr_int) simp
  have p53: "2 powr (real_of_int (- 53)) = 1 / 2 ^ 53"
    using two_powr_neg_int [of "- 53"] by simp
  have "2 powr (real_of_int (expo r + 53)) * 2 powr (real_of_int (- 53))
      = 2 powr (real_of_int (expo r + 53) + real_of_int (- 53))"
    by (simp only: powr_add)
  also have "\<dots> = 2 powr (real_of_int (expo r))" by simp
  finally have "2 powr (real_of_int (expo r)) = 2 ^ nat (expo r + 53) * (1 / 2 ^ 53)"
    by (simp only: p p53)
  then have v: "dval r = real_of_int N / 2 ^ 53"
    by (simp add: dval_powr N_def)
  have "dval r < 1" using assms by (simp add: unit_draw64_def)
  then have "real_of_int N < real_of_int (2 ^ 53)" by (simp add: v)
  then have "N < 2 ^ 53" by (simp only: of_int_less_iff)
  then have "N \<le> 2 ^ 53 - 1" by simp
  then have "real_of_int N \<le> real_of_int (2 ^ 53 - 1)" by (simp only: of_int_le_iff)
  then show ?thesis by (simp add: v field_simps)
next
  case False
  then have "real_of_int (expo r) \<le> real_of_int (- 54)" by simp
  then have "2 powr (real_of_int (expo r)) \<le> 2 powr (real_of_int (- 54))"
    by (intro powr_mono) simp_all
  moreover have "2 powr (real_of_int (- 54)) = 1 / 2 ^ 54"
    using two_powr_neg_int [of "- 54"] by simp
  ultimately have p: "2 powr (real_of_int (expo r)) \<le> 1 / 2 ^ 54"
    by (simp only:)
  have m: "0 \<le> real_of_int (mant r)" "real_of_int (mant r) \<le> 2 ^ 53"
    using assms by (simp_all add: unit_draw64_def)
  have "real_of_int (mant r) * 2 powr (real_of_int (expo r)) \<le> 2 ^ 53 * (1 / 2 ^ 54)"
    using m p by (intro mult_mono) simp_all
  then show ?thesis by (simp add: dval_powr)
qed

text \<open>The blink duration \<open>Math.random() * 50 + 100\<close>.\<close>

lemma blink_duration_range:
  assumes "unit_draw64 r"
  shows "100 \<le> dval (fadd (fmul r (B64 50 0)) (B64 100 0))
    \<and> dval (fadd (fmul r (B64 50 0)) (B64 100 0)) \<le> 150"
proof -
  have r: "0 \<le> mant r" "- 1074 \<le> expo r" "dval r < 1"
    using assms by (simp_all add: unit_draw64_def)
  have r0: "0 \<le> dval r" using r(1) by (simp add: dval_powr)
  let ?y = "fmul r (B64 50 0)"
  have y: "0 \<le> mant ?y" "- 1074 \<le> expo ?y" "0 \<le> dval ?y"
    using fmul_const_parts [of r 50] r by simp_all
  have "dval r * real_of_int 50 \<le> real_of_int 50 * 2 powr (real_of_int 0)"
    using r(3) by simp
  then have y50: "dval ?y \<le> real_of_int 50 * 2 powr (real_of_int 0)"
    using r by (intro fmul_const_le) simp_all
  have "real_of_int 100 * 2 powr (real_of_int 0) \<le> dval ?y + real_of_int 100"
    using y(3) by simp
  then have lo: "real_of_int 100 * 2 powr (real_of_int 0) \<le> dval (fadd ?y (B64 100 0))"
    using y by (intro fadd_const_ge) simp_all
  have "dval ?y + real_of_int 100 \<le> real_of_int 150 * 2 powr (real_of_int 0)"
    using y50 by simp
  then have hi: "dval (fadd ?y (B64 100 0)) \<le> real_of_int 150 * 2 powr (real_of_int 0)"
    using y by (intro fadd_const_le) simp_all
  show ?thesis using lo hi by simp
qed

lemma round64_grid:
  assumes "0 < m" and "- 1074 \<le> e"
  shows "dval (round64 m e)
    = real_of_int (rne m (nat (bitlen m - 53)))
        * 2 powr (real_of_int (e + int (nat (bitlen m - 53))))"
  by (simp only: round64_pos [OF assms] dval_powr binary64.sel)

lemma grid_scale:
  "real_of_int m * 2 powr (real_of_int e)
     = (real_of_int m / 2 ^ k) * 2 powr (real_of_int (e + int k))"
  using two_powr_int [of "int k"] by (simp add: powr_add)

lemma p40: "2 powr (- 40) = (1::real) / 2 ^ 40"
  using two_powr_neg_int [of "- 40"] by simp

text \<open>\<open>Math.random() * 5000\<close> stays below 5000: it is at most the double before 5000.\<close>

lemma fmul_5000_le:
  assumes "unit_draw64 r"
  shows "dval (fmul r (B64 5000 0)) \<le> real_of_int 5497558138879999 * 2 powr (real_of_int (- 40))"
proof (cases "mant r = 0")
  case True
  have "- 1074 \<le> expo r" using assms by (simp add: unit_draw64_def)
  then have "dval (fmul r (B64 5000 0)) = 0"
    using True by (simp add: fmul_const round64_zero dval_powr)
  then show ?thesis by simp
next
  case False
  define m where "m = mant r * 5000"
  define e where "e = expo r"
  define x where "x = real_of_int m * 2 powr (real_of_int e)"
  have r: "0 \<le> mant r" "- 1074 \<le> expo r"
    using assms by (simp_all add: unit_draw64_def)
  have m: "0 < m" using False r(1) by (simp add: m_def)
  have e: "- 1074 \<le> e" using r(2) by (simp add: e_def)
  have y: "fmul r (B64 5000 0) = round64 m e"
    by (simp add: fmul_const m_def e_def)
  have xr: "x = dval r * 5000"
    by (simp add: x_def m_def e_def dval_powr)
  have xb: "x \<le> 5000 - 5000 / 2 ^ 53"
    using unit_draw64_le [OF assms] by (simp add: xr)
  show ?thesis
  proof (cases "x \<le> 4096")
    case True
    have "dval (round64 m e) \<le> real_of_int 1 * 2 powr (real_of_int 12)"
    proof (rule round64_le)
      show "0 < m" by fact
      show "- 1074 \<le> e" by fact
      show "(1::int) < 2 ^ 53" by simp
      show "real_of_int m * 2 powr (real_of_int e) \<le> real_of_int 1 * 2 powr (real_of_int 12)"
        using True by (simp add: x_def)
    qed
    then have "dval (round64 m e) \<le> 4096" by simp
    then show ?thesis by (simp add: y p40)
  next
    case False
    define L where "L = bitlen m"
    have Lb: "2 ^ nat (L - 1) \<le> m" "m < 2 ^ nat L"
      using bitlen_bounds [OF m] by (simp_all add: L_def)
    have L1: "1 \<le> L" using m by (simp add: L_def bitlen_alt_def)
    have up: "x < 2 powr (real_of_int (L + e))"
    proof -
      have "real_of_int m < real_of_int (2 ^ nat L)"
        using Lb(2) by (simp only: of_int_less_iff)
      then have "real_of_int m * 2 powr (real_of_int e)
          < real_of_int (2 ^ nat L) * 2 powr (real_of_int e)"
        by (simp add: mult_strict_right_mono)
      moreover have "2 powr (real_of_int L) = 2 ^ nat L"
        using L1 by (intro two_powr_int) simp
      ultimately show ?thesis by (simp add: x_def powr_add)
    qed
    have lo: "2 powr (real_of_int (L - 1 + e)) \<le> x"
    proof -
      have "real_of_int (2 ^ nat (L - 1)) \<le> real_of_int m"
        using Lb(1) by (simp only: of_int_le_iff)
      then have "real_of_int (2 ^ nat (L - 1)) * 2 powr (real_of_int e)
          \<le> real_of_int m * 2 powr (real_of_int e)"
        by (simp add: mult_right_mono)
      moreover have "2 powr (real_of_int (L - 1)) = 2 ^ nat (L - 1)"
        using L1 by (intro two_powr_int) simp
      moreover have "2 powr (real_of_int (L - 1 + e))
          = 2 powr (real_of_int (L - 1)) * 2 powr (real_of_int e)"
        by (simp add: powr_add)
      ultimately show ?thesis by (simp add: x_def)
    qed
    have a12: "(2::real) powr 12 = 4096" by simp
    have a13: "(2::real) powr 13 = 8192" by simp
    have "(2::real) powr 12 < 2 powr (real_of_int (L + e))"
      using False up a12 by linarith
    then have "(12::real) < real_of_int (L + e)"
      by (rule powr_less_cancel) simp
    then have g1: "12 < L + e" by linarith
    have "x < 8192" using xb by simp
    then have "2 powr (real_of_int (L - 1 + e)) < (2::real) powr 13"
      using lo a13 by linarith
    then have "real_of_int (L - 1 + e) < (13::real)"
      by (rule powr_less_cancel) simp
    then have g2: "L + e \<le> 13" by linarith
    have Le: "L + e = 13" using g1 g2 by simp
    define k where "k = nat (L - 53)"
    define n where "n = rne m k"
    have dv: "dval (round64 m e) = real_of_int n * 2 powr (real_of_int (e + int k))"
      using round64_grid [OF m e] by (simp add: n_def k_def L_def)
    show ?thesis
    proof (cases "L \<le> 53")
      case True
      then have k0: "k = 0" by (simp add: k_def)
      have e40: "0 \<le> e + 40" using True Le by simp
      define N where "N = m * 2 ^ nat (e + 40)"
      have "2 powr (real_of_int (e + 40)) = 2 ^ nat (e + 40)"
        using e40 by (intro two_powr_int) simp
      moreover have "2 powr (real_of_int e)
          = 2 powr (real_of_int (e + 40)) * 2 powr (real_of_int (- 40))"
        by (simp add: powr_add [symmetric])
      ultimately have xN: "x = real_of_int N / 2 ^ 40"
        by (simp add: x_def N_def p40)
      have "x < 5000" using xb by simp
      then have "real_of_int N < real_of_int 5497558138880000"
        by (simp add: xN field_simps)
      then have "N < 5497558138880000" by (simp only: of_int_less_iff)
      then have "N \<le> 5497558138879999" by simp
      then have "real_of_int N \<le> real_of_int 5497558138879999"
        by (simp only: of_int_le_iff)
      then have "x \<le> real_of_int 5497558138879999 * 2 powr (real_of_int (- 40))"
        by (simp add: xN p40 field_simps)
      moreover have "dval (round64 m e) = x"
        by (simp add: dv k0 n_def rne_zero_shift x_def)
      ultimately show ?thesis by (simp only: y)
    next
      case False
      then have ek: "e + int k = - 40" using Le by (simp add: k_def)
      have "x = (real_of_int m / 2 ^ k) * 2 powr (real_of_int (e + int k))"
        unfolding x_def by (rule grid_scale)
      then have xq: "real_of_int m / 2 ^ k = x * 2 ^ 40"
        by (simp add: ek p40)
      have "\<bar>real_of_int n - real_of_int m / 2 ^ k\<bar> \<le> 1 / 2"
        unfolding n_def using m by (intro rne_near) simp
      then have "real_of_int n \<le> x * 2 ^ 40 + 1 / 2"
        by (simp only: xq [symmetric])
      moreover have "x * 2 ^ 40 \<le> (5000 - 5000 / 2 ^ 53) * 2 ^ 40"
        using xb by (intro mult_right_mono) simp_all
      ultimately have "real_of_int n < real_of_int 5497558138880000"
        by simp
      then have "n < 5497558138880000" by (simp only: of_int_less_iff)
      then have "n \<le> 5497558138879999" by simp
      then have "real_of_int n \<le> real_of_int 5497558138879999"
        by (simp only: of_int_le_iff)
      then have "real_of_int n * 2 powr (real_of_int (- 40))
          \<le> real_of_int 5497558138879999 * 2 powr (real_of_int (- 40))"
        by (intro mult_right_mono) simp_all
      then show ?thesis by (simp only: y dv ek)
    qed
  qed
qed

text \<open>The wait \<open>Math.random() * 5000 + 2500\<close>.\<close>

lemma blink_delay_range:
  assumes "unit_draw64 r"
  shows "2500 \<le> dval (fadd (fmul r (B64 5000 0)) (B64 2500 0))
    \<and> dval (fadd (fmul r (B64 5000 0)) (B64 2500 0)) < 7500"
proof -
  have r: "0 \<le> mant r" "- 1074 \<le> expo r"
    using assms by (simp_all add: unit_draw64_def)
  let ?y = "fmul r (B64 5000 0)"
  have y: "0 \<le> mant ?y" "- 1074 \<le> expo ?y" "0 \<le> dval ?y"
    using fmul_const_parts [of r 5000] r by simp_all
  have yb: "dval ?y \<le> real_of_int 5497558138879999 * 2 powr (real_of_int (- 40))"
    using assms by (rule fmul_5000_le)
  have "real_of_int 2500 * 2 powr (real_of_int 0) \<le> dval ?y + real_of_int 2500"
    using y(3) by simp
  then have lo: "real_of_int 2500 * 2 powr (real_of_int 0) \<le> dval (fadd ?y (B64 2500 0))"
    using y by (intro fadd_const_ge) simp_all
  have "dval ?y + real_of_int 2500
      \<le> real_of_int 8246337208319999 * 2 powr (real_of_int (- 40))"
    using yb by (simp add: p40)
  then have hi: "dval (fadd ?y (B64 2500 0))
      \<le> real_of_int 8246337208319999 * 2 powr (real_of_int (- 40))"
    using y by (intro fadd_const_le) simp_all
  have "real_of_int 8246337208319999 * 2 powr (real_of_int (- 40)) < 7500"
    by (simp add: p40)
  then show ?thesis using lo hi by simp
qed

subsection \<open>The loop\<close>

lemma dval_200: "dval (B64 200 0) = 200"
  by (simp add: dval_def)

lemma dval_literal_08: "dval (B64 3602879701896397 (- 52)) = 3602879701896397 / 2 ^ 52"
  by (simp add: dval_def)

lemma scheduleBlink_ok: "unit_draw64 r2 \<Longrightarrow> blink_timer_ok (scheduleBlink r1 r2)"
  using blink_delay_range [of r2] by (simp add: scheduleBlink_def Let_def dval_200)

lemma scheduleBlink_start: "\<exists>d. scheduleBlink r1 r2 = BlinkStart d"
  by (simp add: scheduleBlink_def Let_def)

lemma blink_mount_inv: "unit_draw64 r2 \<Longrightarrow> blink_inv (blink_mount r1 r2)"
  using scheduleBlink_start [of r1 r2]
  by (auto simp add: blink_inv_def blink_mount_def scheduleBlink_ok)

lemma blink_fire_inv:
  assumes "blink_inv b" "unit_draw64 (fst r)" "unit_draw64 (snd r)"
  shows "blink_inv (blink_fire r b)"
proof (cases "blinkTimeout b")
  case (BlinkStart d)
  then show ?thesis using assms(1) blink_duration_range [OF assms(2)]
    by (simp add: blink_inv_def blink_fire_def Let_def)
next
  case (BlinkEnd d)
  have "blink_timer_ok (scheduleBlink (fst r) (snd r))" using assms(3) by (rule scheduleBlink_ok)
  moreover have "\<not> (\<exists>d. scheduleBlink (fst r) (snd r) = BlinkEnd d)"
    using scheduleBlink_start [of "fst r" "snd r"] by auto
  ultimately show ?thesis using BlinkEnd assms(1)
    by (simp add: blink_inv_def blink_fire_def)
qed

lemma blink_fire_length: "length (blinkLog (blink_fire r b)) = Suc (length (blinkLog b))"
  by (simp add: blink_fire_def Let_def split: blink_timer.splits)

lemma blink_run_inv:
  "blink_inv b \<Longrightarrow> \<forall>r \<in> set rs. unit_draw64 (fst r) \<and> unit_draw64 (snd r)
   \<Longrightarrow> blink_inv (blink_run rs b)
       \<and> length (blinkLog (blink_run rs b)) = length (blinkLog b) + length rs"
  unfolding blink_run_def
proof (induction rs arbitrary: b)
  case Nil
  then show ?case by simp
next
  case (Cons r rs)
  have "blink_inv (blink_fire r b)" using Cons.prems by (simp add: blink_fire_inv)
  then show ?case using Cons.IH [of "blink_fire r b"] Cons.prems(2)
    by (simp add: blink_fire_length)
qed

text \<open>
  Claim C9, as stated: every scheduled blink has a duration in [100, 150). The duration
  is \<open>Math.random() * 50 + 100\<close> in doubles: for the largest double below 1, and for the
  one before it, the sum rounds to exactly 150.
\<close>

theorem C9_blink_duration_reaches_150:
  "unit_draw64 (B64 9007199254740991 (- 53))
   \<and> unit_draw64 (B64 4503599627370495 (- 52))
   \<and> blinkTimeout
        (blink_fire (B64 9007199254740991 (- 53), B64 1 (- 1))
           (blink_mount (B64 1 (- 1)) (B64 1 (- 1)))) = BlinkEnd 150
   \<and> blinkTimeout
        (blink_fire (B64 4503599627370495 (- 52), B64 1 (- 1))
           (blink_mount (B64 1 (- 1)) (B64 1 (- 1)))) = BlinkEnd 150"
proof -
  have m: "fadd (fmul (B64 1 (- 1)) (B64 5000 0)) (B64 2500 0) = B64 10000 (- 1)"
    by code_simp
  have a: "fadd (fmul (B64 9007199254740991 (- 53)) (B64 50 0)) (B64 100 0)
      = B64 5277655813324800 (- 45)"
    by code_simp
  have b: "fadd (fmul (B64 4503599627370495 (- 52)) (B64 50 0)) (B64 100 0)
      = B64 5277655813324800 (- 45)"
    by code_simp
  show ?thesis
    by (simp add: unit_draw64_def blink_fire_def blink_mount_def scheduleBlink_def Let_def
        m a b dval_def)
qed

text \<open>
  Claim C9, amended: with every draw of \<open>Math.random()\<close> a double in [0, 1), each timer
  the blink loop sets is a blink of a duration in [100, 150] or a wait of exactly 200 or
  in [2500, 7500). At mount and after each blink the wait is 200 when the first draw is
  greater than the double 0.8 (which exceeds 4/5 by \<open>1 / (5 * 2 ^ 52)\<close>), and
  \<open>Math.random() * 5000 + 2500\<close> otherwise; the duration is
  \<open>Math.random() * 50 + 100\<close>. The loop has no input but the draws: when the wait ends
  the eyes close for the blink duration, and when the blink ends they open and the next
  wait is set, so that after any number of timer callbacks one more timer is pending.
\<close>

theorem C9_blink:
  "(unit_draw64 r1 \<and> unit_draw64 r2
      \<and> (\<forall>r \<in> set rs. unit_draw64 (fst r) \<and> unit_draw64 (snd r)) \<longrightarrow>
      (\<forall>t \<in> set (blinkLog (blink_run rs (blink_mount r1 r2))). blink_timer_ok t)
      \<and> length (blinkLog (blink_run rs (blink_mount r1 r2))) = Suc (length rs)
      \<and> last (blinkLog (blink_run rs (blink_mount r1 r2)))
          = blinkTimeout (blink_run rs (blink_mount r1 r2))
      \<and> (isBlinking (blink_run rs (blink_mount r1 r2))
           \<longleftrightarrow> (\<exists>d. blinkTimeout (blink_run rs (blink_mount r1 r2)) = BlinkEnd d)))
   \<and> \<not> isBlinking (blink_mount r1 r2)
   \<and> blinkTimeout (blink_mount r1 r2)
       = BlinkStart (if 3602879701896397 / 2 ^ 52 < dval r1 then 200
                     else dval (fadd (fmul r2 (B64 5000 0)) (B64 2500 0)))
   \<and> (blinkTimeout b = BlinkEnd d \<longrightarrow>
        \<not> isBlinking (blink_fire r b)
        \<and> blinkTimeout (blink_fire r b)
            = BlinkStart (if 3602879701896397 / 2 ^ 52 < dval (fst r) then 200
                          else dval (fadd (fmul (snd r) (B64 5000 0)) (B64 2500 0))))
   \<and> (blinkTimeout b = BlinkStart d \<longrightarrow>
        isBlinking (blink_fire r b)
        \<and> blinkTimeout (blink_fire r b)
            = BlinkEnd (dval (fadd (fmul (fst r) (B64 50 0)) (B64 100 0))))
   \<and> (unit_draw64 (fst r) \<longrightarrow>
        100 \<le> dval (fadd (fmul (fst r) (B64 50 0)) (B64 100 0))
        \<and> dval (fadd (fmul (fst r) (B64 50 0)) (B64 100 0)) \<le> 150)
   \<and> (unit_draw64 (snd r) \<longrightarrow>
        2500 \<le> dval (fadd (fmul (snd r) (B64 5000 0)) (B64 2500 0))
        \<and> dval (fadd (fmul (snd r) (B64 5000 0)) (B64 2500 0)) < 7500)
   \<and> dval (B64 3602879701896397 (- 52)) - 4 / 5 = 1 / (5 * 2 ^ 52)"
proof -
  have a: "(\<forall>t \<in> set (blinkLog (blink_run rs (blink_mount r1 r2))). blink_timer_ok t)
      \<and> length (blinkLog (blink_run rs (blink_mount r1 r2))) = Suc (length rs)
      \<and> last (blinkLog (blink_run rs (blink_mount r1 r2)))
          = blinkTimeout (blink_run rs (blink_mount r1 r2))
      \<and> (isBlinking (blink_run rs (blink_mount r1 r2))
           \<longleftrightarrow> (\<exists>d. blinkTimeout (blink_run rs (blink_mount r1 r2)) = BlinkEnd d))"
    if u: "unit_draw64 r2"
      and rs: "\<forall>r \<in> set rs. unit_draw64 (fst r) \<and> unit_draw64 (snd r)"
  proof -
    have "blink_inv (blink_mount r1 r2)" using u by (rule blink_mount_inv)
    then have "blink_inv (blink_run rs (blink_mount r1 r2))
       \<and> length (blinkLog (blink_run rs (blink_mount r1 r2)))
           = length (blinkLog (blink_mount r1 r2)) + length rs"
      using rs by (rule blink_run_inv)
    then show ?thesis
      by (simp add: blink_inv_def list_all_iff blink_mount_def)
  qed
  have s: "scheduleBlink x y
      = BlinkStart (if 3602879701896397 / 2 ^ 52 < dval x then 200
                    else dval (fadd (fmul y (B64 5000 0)) (B64 2500 0)))" for x y
    by (simp add: scheduleBlink_def Let_def dval_200 dval_literal_08)
  have m: "\<not> isBlinking (blink_mount r1 r2)
      \<and> blinkTimeout (blink_mount r1 r2)
       = BlinkStart (if 3602879701896397 / 2 ^ 52 < dval r1 then 200
                     else dval (fadd (fmul r2 (B64 5000 0)) (B64 2500 0)))"
    by (simp add: blink_mount_def s)
  have c: "blinkTimeout b = BlinkEnd d \<longrightarrow>
        \<not> isBlinking (blink_fire r b)
        \<and> blinkTimeout (blink_fire r b)
            = BlinkStart (if 3602879701896397 / 2 ^ 52 < dval (fst r) then 200
                          else dval (fadd (fmul (snd r) (B64 5000 0)) (B64 2500 0)))"
    by (simp add: blink_fire_def s)
  have e: "blinkTimeout b = BlinkStart d \<longrightarrow>
        isBlinking (blink_fire r b)
        \<and> blinkTimeout (blink_fire r b)
            = BlinkEnd (dval (fadd (fmul (fst r) (B64 50 0)) (B64 100 0)))"
    by (simp add: blink_fire_def Let_def)
  have f: "unit_draw64 (fst r) \<longrightarrow>
        100 \<le> dval (fadd (fmul (fst r) (B64 50 0)) (B64 100 0))
        \<and> dval (fadd (fmul (fst r) (B64 50 0)) (B64 100 0)) \<le> 150"
    using blink_duration_range [of "fst r"] by blast
  have g: "unit_draw64 (snd r) \<longrightarrow>
        2500 \<le> dval (fadd (fmul (snd r) (B64 5000 0)) (B64 2500 0))
        \<and> dval (fadd (fmul (snd r) (B64 5000 0)) (B64 2500 0)) < 7500"
    using blink_delay_range [of "snd r"] by blast
  have h: "dval (B64 3602879701896397 (- 52)) - 4 / 5 = 1 / (5 * 2 ^ 52)"
    by (simp add: dval_def)
  show ?thesis using a m c e f g h by blast
qed

theorem C9_blink_witness:
  "unit_draw64 (B64 1 (- 1)) \<and> unit_draw64 (B64 1 (- 2))
   \<and> unit_draw64 (B64 3602879701896397 (- 52)) \<and> unit_draw64 (B64 7205759403792795 (- 53))
   \<and> blinkLog (blink_run [(B64 1 (- 1), B64 1 (- 1)), (B64 7205759403792795 (- 53), B64 1 (- 1))]
        (blink_mount (B64 3602879701896397 (- 52)) (B64 1 (- 2))))
       = [BlinkStart 3750, BlinkEnd 125, BlinkStart 200]
   \<and> list_all blink_timer_ok
        (blinkLog (blink_run [(B64 1 (- 1), B64 1 (- 1)),
                              (B64 7205759403792795 (- 53), B64 1 (- 1))]
           (blink_mount (B64 3602879701896397 (- 52)) (B64 1 (- 2)))))
   \<and> blinkTimeout (blink_mount (B64 3602879701896397 (- 52)) (B64 1 (- 2))) = BlinkStart 3750
   \<and> isBlinking (blink_fire (B64 1 (- 1), B64 1 (- 1))
        (blink_mount (B64 3602879701896397 (- 52)) (B64 1 (- 2))))
   \<and> blinkTimeout (blink_fire (B64 1 (- 1), B64 1 (- 1))
        (blink_mount (B64 3602879701896397 (- 52)) (B64 1 (- 2)))) = BlinkEnd 125
   \<and> \<not> isBlinking (blink_fire (B64 7205759403792795 (- 53), B64 1 (- 1))
        (blink_fire (B64 1 (- 1), B64 1 (- 1))
           (blink_mount (B64 3602879701896397 (- 52)) (B64 1 (- 2)))))"
proof -
  have m: "fadd (fmul (B64 1 (- 2)) (B64 5000 0)) (B64 2500 0) = B64 15000 (- 2)"
    by code_simp
  have a: "fadd (fmul (B64 1 (- 1)) (B64 50 0)) (B64 100 0) = B64 250 (- 1)"
    by code_simp
  have n: "fadd (fmul (B64 1 (- 1)) (B64 5000 0)) (B64 2500 0) = B64 10000 (- 1)"
    by code_simp
  show ?thesis
    using C9_blink [of "B64 3602879701896397 (- 52)" "B64 1 (- 2)"
        "[(B64 1 (- 1), B64 1 (- 1)), (B64 7205759403792795 (- 53), B64 1 (- 1))]"
        "blink_mount (B64 3602879701896397 (- 52)) (B64 1 (- 2))" 3750
        "(B64 1 (- 1), B64 1 (- 1))"]
      C9_blink [of "B64 3602879701896397 (- 52)" "B64 1 (- 2)"
        "[(B64 1 (- 1), B64 1 (- 1)), (B64 7205759403792795 (- 53), B64 1 (- 1))]"
        "blink_fire (B64 1 (- 1), B64 1 (- 1))
           (blink_mount (B64 3602879701896397 (- 52)) (B64 1 (- 2)))" 125
        "(B64 7205759403792795 (- 53), B64 1 (- 1))"]
    by (simp add: unit_draw64_def blink_run_def blink_mount_def blink_fire_def
        scheduleBlink_def Let_def m a n dval_def)
qed


section \<open>Properties of the memory note\<close>

lemma memory_run_keeps:
  "D \<in> set (clearTimers m) \<Longrightarrow> now m + elapsed evs < D \<Longrightarrow>
     D \<in> set (clearTimers (memory_run evs m)) \<and> now (memory_run evs m) = now m + elapsed evs"
  unfolding memory_run_def
proof (induction evs arbitrary: m)
  case Nil
  then show ?case by simp
next
  case (Cons e evs)
  show ?case
  proof (cases e)
    case (MemoryUpdate x)
    have "D \<in> set (clearTimers (onMemoryUpdate x m))" "now (onMemoryUpdate x m) = now m"
      using Cons.prems(1) by (simp_all add: onMemoryUpdate_def Let_def)
    then show ?thesis using Cons.IH [of "onMemoryUpdate x m"] Cons.prems(2) MemoryUpdate
      by simp
  next
    case (Elapse d)
    have "D \<in> set (clearTimers (elapse d m))" "now (elapse d m) = now m + d"
      using Cons.prems Elapse by (simp_all add: elapse_def Let_def)
    then show ?thesis using Cons.IH [of "elapse d m"] Cons.prems(2) Elapse
      by (simp add: add.assoc)
  qed
qed

lemma elapse_due:
  "D \<in> set (clearTimers m) \<Longrightarrow> D \<le> now m + d \<Longrightarrow> lastMemory (elapse d m) = None"
  by (auto simp add: elapse_def Let_def filter_empty_conv)

text \<open>
  Claim C2, as stated: a fresh memory update within the 8 seconds restarts the window, so
  that the new fact stays for 8 seconds from the fresh update. It does not: with a first
  update at time 0 and a second one at 5000 ms, the second fact is still stored 2999 ms
  after it arrived and is cleared 3000 ms after it arrived, when the first timer fires.
\<close>

theorem C2_fresh_update_cleared_early:
  "lastMemory (memory_run [MemoryUpdate (js ''A''), Elapse 5000, MemoryUpdate (js ''B''),
                           Elapse 2999] init_memory) = Some (js ''B'')
   \<and> lastMemory (memory_run [MemoryUpdate (js ''A''), Elapse 5000, MemoryUpdate (js ''B''),
                             Elapse 3000] init_memory) = None"
  by (simp add: memory_run_def init_memory_def onMemoryUpdate_def elapse_def Let_def)

text \<open>
  Claim C2, amended: a memory update stores its fact, and the stored note is cleared
  8000 ms after that update whatever updates arrive in between (a fresh update does not
  restart the window: the earlier timer still fires and clears the newer fact). With no
  earlier timer due in the meantime and no further update, the fact stays stored for
  every time short of 8000 ms.
\<close>

theorem C2_memory_window:
  "lastMemory (onMemoryUpdate txt m) = Some txt
   \<and> (elapsed evs < 8000 \<and> 8000 \<le> elapsed evs + d \<longrightarrow>
        lastMemory (memory_run (MemoryUpdate txt # evs @ [Elapse d]) m) = None)
   \<and> ((\<forall>x \<in> set (clearTimers m). now m + d < x) \<and> d < 8000 \<longrightarrow>
        lastMemory (elapse d (onMemoryUpdate txt m)) = Some txt)"
proof -
  have a: "lastMemory (onMemoryUpdate txt m) = Some txt"
    by (simp add: onMemoryUpdate_def Let_def)
  have b: "lastMemory (memory_run (MemoryUpdate txt # evs @ [Elapse d]) m) = None"
    if lt: "elapsed evs < 8000" and ge: "8000 \<le> elapsed evs + d"
  proof -
    let ?m1 = "onMemoryUpdate txt m"
    let ?D = "now m + 8000"
    have mem: "?D \<in> set (clearTimers ?m1)" and n1: "now ?m1 = now m"
      by (simp_all add: onMemoryUpdate_def Let_def)
    have "now ?m1 + elapsed evs < ?D" using lt n1 by simp
    with mem have k: "?D \<in> set (clearTimers (memory_run evs ?m1))
        \<and> now (memory_run evs ?m1) = now ?m1 + elapsed evs"
      by (rule memory_run_keeps)
    then have "?D \<le> now (memory_run evs ?m1) + d" using ge n1 by simp
    with k have "lastMemory (elapse d (memory_run evs ?m1)) = None"
      using elapse_due [of ?D "memory_run evs ?m1" d] by simp
    then show ?thesis by (simp add: memory_run_def)
  qed
  have c: "lastMemory (elapse d (onMemoryUpdate txt m)) = Some txt"
    if "\<forall>x \<in> set (clearTimers m). now m + d < x" and "d < 8000"
    using that by (auto simp add: elapse_def onMemoryUpdate_def Let_def filter_empty_conv)
  show ?thesis using a b c by blast
qed

theorem C2_memory_window_witness:
  "elapsed [Elapse 5000, MemoryUpdate (js ''B''), Elapse 2000] < 8000
   \<and> 8000 \<le> elapsed [Elapse 5000, MemoryUpdate (js ''B''), Elapse 2000] + 1000
   \<and> lastMemory (memory_run [MemoryUpdate (js ''A''), Elapse 5000, MemoryUpdate (js ''B''),
                             Elapse 2000, Elapse 1000] init_memory) = None
   \<and> list_all (\<lambda>x. now init_memory + 7999 < x) (clearTimers init_memory)
   \<and> lastMemory (elapse 7999 (onMemoryUpdate (js ''A'') init_memory)) = Some (js ''A'')"
  using C2_memory_window [of "js ''A''" init_memory
      "[Elapse 5000, MemoryUpdate (js ''B''), Elapse 2000]" 1000]
    C2_memory_window [of "js ''A''" init_memory "[]" 7999]
  by (simp add: init_memory_def)


section \<open>Properties of the idle gestures\<close>

text \<open>
  Claim C7 says that disabling idle gestures, or leaving the idle state, cancels the
  pending gesture timer, so that no gesture fires afterwards. Two runs of the effect as it
  is written, with every draw 0 (the delay 4000 ms, the gesture glance, the hold
  2000 ms). In the first the status leaves idle while a gesture is held: the cleanup
  clears the outer timer, which has fired already; the inner timer then fires, calls
  \<open>scheduleAction\<close>, and the timer this sets fires a gesture while the status is
  listening. In the second, idle gestures are disabled while the outer timer is pending:
  the effect does not run again, since \<open>enableIdleActions\<close> is not among its dependencies,
  and the timer fires a gesture.
\<close>

theorem C7_gesture_fires_after_leaving_idle:
  "idleStatus (idle_run [((0, 0), FireTimer 0), ((0, 0), SetStatus Listening),
                         ((0, 0), FireTimer 1), ((0, 0), FireTimer 2)] (idle_mount 0))
     = Listening
   \<and> idleAction (idle_run [((0, 0), FireTimer 0), ((0, 0), SetStatus Listening),
                           ((0, 0), FireTimer 1), ((0, 0), FireTimer 2)] (idle_mount 0))
     = Glance
   \<and> enableIdleActions (idle_run [((0, 0), SetEnableIdleActions False),
                                   ((0, 0), FireTimer 0)] (idle_mount 0)) = False
   \<and> idleAction (idle_run [((0, 0), SetEnableIdleActions False), ((0, 0), FireTimer 0)]
                   (idle_mount 0)) = Glance"
  by (simp add: idle_run_def idle_mount_def idle_effect_def scheduleAction_def setStatus_def
      setEnableIdleActions_def idle_cleanup_def fireTimer_def pickAction_def Let_def)

end
